theory Spec2Isabelle
  imports Main "HOL-Library.Word" "HOL-Library.Sublist"
begin

unbundle bit_operations_syntax

section \<open>The spawn hook of posixspawn-hook.c\<close>

text \<open>
  A shallow embedding of \<^verbatim>\<open>src/darwin-bootstrap/posixspawn-hook.c\<close>. A C string is a
  \<open>string\<close> (the bytes before the terminating NUL, which stays implicit); a nullable
  pointer to data is an \<open>option\<close>. Every library call whose outcome the code
  tests (malloc, open, access, dup2, ...) takes its outcome from a record of the
  environment, so that each failure branch of the source is a branch of the model.
\<close>

subsection \<open>String helpers\<close>

text \<open>\<^verbatim>\<open>advance\<close> (lines 43-50): when \<open>template\<close> is a prefix of the string, step over it.\<close>

definition advance :: "string \<Rightarrow> string \<Rightarrow> string option" where
  "advance str template =
     (let len = length template
      in if take len str = template then Some (drop len str) else None)"

text \<open>\<^verbatim>\<open>xbasename\<close> (lines 151-154): what follows the last slash, or the whole path.\<close>

definition xbasename :: "string \<Rightarrow> string" where
  "xbasename path =
     (if CHR ''/'' \<in> set path then rev (takeWhile (\<lambda>c. c \<noteq> CHR ''/'') (rev path)) else path)"

definition bl_dylib :: string where
  "bl_dylib = ''/Library/Substitute/Helpers/bundle-loader.dylib''"

definition psh_dylib :: string where
  "psh_dylib = ''/Library/Substitute/Helpers/posixspawn-hook.dylib''"

subsection \<open>The environment rewriter (lines 249-315)\<close>

text \<open>
  The scan of lines 252-265, one entry per step. The loop state is \<open>safe_mode\<close>,
  \<open>orig_dyld_insert\<close> and \<open>env_count\<close>; \<open>None\<close> is the \<^verbatim>\<open>goto skip\<close> of
  line 261.
\<close>

fun scan_env :: "string list \<Rightarrow> bool \<Rightarrow> string \<Rightarrow> nat \<Rightarrow> (bool \<times> string \<times> nat) option" where
  "scan_env [] safe_mode orig_dyld_insert env_count = Some (safe_mode, orig_dyld_insert, env_count)"
| "scan_env (env # ep) safe_mode orig_dyld_insert env_count =
     (case (case advance env ''_MSSafeMode='' of
              Some v \<Rightarrow> Some v
            | None \<Rightarrow> advance env ''_SubstituteSafeMode='') of
        Some v \<Rightarrow>
          if v = ''0'' \<or> v = ''NO'' then scan_env ep safe_mode orig_dyld_insert (Suc env_count)
          else if v = ''1'' \<or> v = ''YES'' then scan_env ep True orig_dyld_insert (Suc env_count)
          else None
      | None \<Rightarrow>
          (case advance env ''DYLD_INSERT_LIBRARIES='' of
             Some v \<Rightarrow> scan_env ep safe_mode v (Suc env_count)
           | None \<Rightarrow> scan_env ep safe_mode orig_dyld_insert (Suc env_count)))"

text \<open>
  The copy loop of lines 272-290. \<open>p\<close> is the rest of the captured value, \<open>out\<close> what
  has been written after the \<^verbatim>\<open>DYLD_INSERT_LIBRARIES=\<close> prefix so far, so that
  \<^verbatim>\<open>newp != newp_orig\<close> is \<open>out \<noteq> []\<close>. \<open>nxt\<close> is the text from the next colon on
  (empty when there is none).
\<close>

function append_not_ours :: "string \<Rightarrow> string \<Rightarrow> string" where
  "append_not_ours p out =
     (if p = [] then out
      else
        let elem = takeWhile (\<lambda>c. c \<noteq> CHR '':'') p;
            nxt = dropWhile (\<lambda>c. c \<noteq> CHR '':'') p;
            is_substitute = (elem = bl_dylib \<or> elem = psh_dylib);
            out' = (if \<not> is_substitute
                    then (if out \<noteq> [] then out @ '':'' else out) @ elem
                    else out)
        in if nxt = [] then out' else append_not_ours (tl nxt) out')"
  by pat_completeness auto
termination
proof (relation "measure (\<lambda>(p, out). length p)")
  show "wf (measure (\<lambda>(p, out). length p))" by simp
next
  fix p out :: string and elem nxt :: string and is_substitute :: bool and out' :: string
  assume "p \<noteq> []" and nxt: "nxt = dropWhile (\<lambda>c. c \<noteq> CHR '':'') p" and "nxt \<noteq> []"
  have "length nxt \<le> length p"
    unfolding nxt by (rule length_dropWhile_le)
  moreover have "length (tl nxt) < length nxt"
    using \<open>nxt \<noteq> []\<close> by (cases nxt) simp_all
  ultimately show "((tl nxt, out'), (p, out)) \<in> measure (\<lambda>(p, out). length p)"
    by simp
qed

declare append_not_ours.simps [simp del]

text \<open>
  Lines 291-303: append the library unless in safe mode; an empty value means no entry
  at all (\<^verbatim>\<open>new = NULL\<close>).
\<close>

definition rebuild_dyld_insert :: "bool \<Rightarrow> string \<Rightarrow> string \<Rightarrow> string option" where
  "rebuild_dyld_insert safe_mode orig_dyld_insert dylib_to_add =
     (let out = append_not_ours orig_dyld_insert [];
          out' = (if \<not> safe_mode
                  then (if out \<noteq> [] then out @ '':'' else out) @ dylib_to_add
                  else out)
      in if out' = [] then None else Some (''DYLD_INSERT_LIBRARIES='' @ out'))"

text \<open>Lines 304-315: every entry that is not a DYLD_INSERT_LIBRARIES one, then \<open>new\<close>.\<close>

definition build_envp :: "string list \<Rightarrow> nat \<Rightarrow> string option \<Rightarrow> string list" where
  "build_envp my_envp env_count new =
     filter (\<lambda>env. advance env ''DYLD_INSERT_LIBRARIES='' = None) (take env_count my_envp)
       @ (case new of None \<Rightarrow> [] | Some s \<Rightarrow> [s])"

text \<open>
  The three steps in sequence, as the hook runs them when both allocations succeed:
  \<open>None\<close> when the scan skips, else the safe-mode flag and the new environment.
\<close>

definition rewrite_env :: "string list \<Rightarrow> string \<Rightarrow> (bool \<times> string list) option" where
  "rewrite_env my_envp dylib_to_add =
     (case scan_env my_envp False [] 0 of
        None \<Rightarrow> None
      | Some (safe_mode, orig_dyld_insert, env_count) \<Rightarrow>
          Some (safe_mode,
                build_envp my_envp env_count
                  (rebuild_dyld_insert safe_mode orig_dyld_insert dylib_to_add)))"


subsection \<open>The binary restriction inspector (lines 77-149)\<close>

type_synonym byte = "8 word"

text \<open>
  An open file is the list of its bytes. \<^verbatim>\<open>read\<close> and \<^verbatim>\<open>pread\<close> return the bytes
  that exist in the requested range; a short read is a shorter list.
\<close>

definition pread :: "byte list \<Rightarrow> nat \<Rightarrow> nat \<Rightarrow> byte list" where
  "pread f nbyte offset = take nbyte (drop offset f)"

text \<open>
  A \<^verbatim>\<open>uint32_t\<close> field of the header buffer \<open>u\<close>, as the processor loads it. The hosts
  of this library (iOS and macOS devices) are little-endian, so the byte at the lowest
  address is the least significant, and \<^verbatim>\<open>ntohl\<close> and \<^verbatim>\<open>OSSwapInt32\<close> both reverse the
  four bytes.
\<close>

definition u32_at :: "byte list \<Rightarrow> nat \<Rightarrow> 32 word" where
  "u32_at u off =
     ucast (u ! off) OR push_bit 8 (ucast (u ! (off + 1))) OR
     push_bit 16 (ucast (u ! (off + 2))) OR push_bit 24 (ucast (u ! (off + 3)))"

definition OSSwapInt32 :: "32 word \<Rightarrow> 32 word" where
  "OSSwapInt32 x =
     push_bit 24 (x AND 0xff) OR push_bit 8 (x AND 0xff00) OR
     (drop_bit 8 x AND 0xff00) OR drop_bit 24 x"

definition ntohl :: "32 word \<Rightarrow> 32 word" where
  "ntohl x = OSSwapInt32 x"

text \<open>
  The constants and layouts of the system headers \<^verbatim>\<open><mach-o/fat.h>\<close> and
  \<^verbatim>\<open><mach-o/loader.h>\<close>, which are not part of the repository: the union \<open>u\<close> is 28
  bytes (a \<^verbatim>\<open>fat_header\<close> of 8 bytes with one \<^verbatim>\<open>fat_arch\<close> of 20, or a
  \<^verbatim>\<open>mach_header\<close> of 28); \<^verbatim>\<open>nfat_arch\<close> is at byte 4, the first architecture's
  \<^verbatim>\<open>offset\<close> at byte 16, \<^verbatim>\<open>sizeofcmds\<close> at byte 20; a \<^verbatim>\<open>mach_header_64\<close> is 32 bytes.
\<close>

definition FAT_MAGIC :: "32 word" where "FAT_MAGIC = 0xcafebabe"
definition MH_MAGIC :: "32 word" where "MH_MAGIC = 0xfeedface"
definition MH_MAGIC_64 :: "32 word" where "MH_MAGIC_64 = 0xfeedfacf"
definition MH_CIGAM :: "32 word" where "MH_CIGAM = 0xcefaedfe"
definition MH_CIGAM_64 :: "32 word" where "MH_CIGAM_64 = 0xcffaedfe"

definition sizeof_u :: nat where "sizeof_u = 28"

text \<open>\<^verbatim>\<open>sectname\<close> (line 143) with its \<^verbatim>\<open>sizeof\<close>: the ten characters and the NUL.\<close>

definition sectname :: "byte list" where
  "sectname = map of_char ''__restrict'' @ [0]"

text \<open>\<^verbatim>\<open>memmem\<close>: does the needle occur in the haystack?\<close>

fun memmem :: "byte list \<Rightarrow> byte list \<Rightarrow> bool" where
  "memmem [] needle = (needle = [])"
| "memmem (h # hs) needle = (take (length needle) (h # hs) = needle \<or> memmem hs needle)"

text \<open>
  Lines 93-108: the header, re-read inside a fat file. \<open>None\<close> is a \<^verbatim>\<open>goto end\<close>; the
  result is the header buffer and \<open>offset\<close>.
\<close>

definition read_header :: "byte list \<Rightarrow> (byte list \<times> 32 word) option" where
  "read_header f =
     (let u = pread f sizeof_u 0
      in if length u \<noteq> sizeof_u then None
         else if ntohl (u32_at u 0) = FAT_MAGIC then
           (if u32_at u 4 = 0 then None
            else
              let offset = ntohl (u32_at u 16);
                  u' = pread f sizeof_u (unat offset)
              in if length u' \<noteq> sizeof_u then None else Some (u', offset))
         else Some (u, 0))"

text \<open>The \<^verbatim>\<open>switch\<close> of lines 110-130: \<open>(swap, is64)\<close>, or \<open>None\<close> for a bad magic.\<close>

definition classify_magic :: "32 word \<Rightarrow> (bool \<times> bool) option" where
  "classify_magic magic =
     (if magic = MH_MAGIC then Some (False, False)
      else if magic = MH_MAGIC_64 then Some (False, True)
      else if magic = MH_CIGAM then Some (True, False)
      else if magic = MH_CIGAM_64 then Some (True, True)
      else None)"

subsection \<open>The environment of a call\<close>

text \<open>
  What the hook acquires and releases: the buffers \<^verbatim>\<open>my_attr\<close>, \<^verbatim>\<open>new\<close>, \<^verbatim>\<open>new_envp\<close>
  and \<^verbatim>\<open>cmds_buf\<close>, the inspector's file descriptor, and descriptor 255.
\<close>

datatype resource = MyAttr | NewStr | NewEnvp | CmdsBuf | InspectorFd | MarkerFd

record spawnattr =
  attr_flags :: "16 word"
  attr_other :: nat

text \<open>
  A \<^verbatim>\<open>pid_t *\<close> argument: null, the caller's, or \<^verbatim>\<open>&prog_pid\<close> of
  \<^verbatim>\<open>spawn_unrestrict\<close>.
\<close>

datatype pid_ptr = NullPid | CallerPid | ProgPid

text \<open>The six arguments of \<^verbatim>\<open>posix_spawn\<close>; a null pointer is \<open>None\<close>.\<close>

record spawn_call =
  sc_pidp :: pid_ptr
  sc_path :: string
  sc_file_actions :: "nat option"
  sc_attrp :: "spawnattr option"
  sc_argv :: "string list option"
  sc_envp :: "string list option"

text \<open>
  The trace of a call: a resource acquired (malloc, \<^verbatim>\<open>posix_spawnattr_init\<close>, open,
  dup2) or released (free, close), \<^verbatim>\<open>fcntl(255, F_SETFD, FD_CLOEXEC)\<close>, a call of the
  primitive \<open>old\<close> the entry point wraps, a call of \<^verbatim>\<open>old_posix_spawn\<close>, and
  \<^verbatim>\<open>waitpid\<close>.
\<close>

datatype event =
    Acquire resource
  | Release resource
  | SetCloexec
  | CallOld spawn_call
  | CallOldPosixSpawn spawn_call
  | WaitPid int

text \<open>
  How a call ends: a null pointer is dereferenced, the process image is replaced (a
  successful \<^verbatim>\<open>POSIX_SPAWN_SETEXEC\<close> spawn does not return), or the hook returns.
\<close>

datatype outcome = Crashed | ProcessReplaced | Return int

text \<open>
  Everything outside the hook that its branches test. An original primitive is a
  function from its arguments to the return value and the pid it stores.
\<close>

record world =
  is_launchd :: bool
  IB_VERBOSE :: bool
  environ :: "string list"
  getflags_ok :: bool
  access_ok :: "string \<Rightarrow> bool"
  attr_malloc_ok :: bool
  attr_init_ok :: bool
  new_malloc_ok :: bool
  new_envp_malloc_ok :: bool
  files :: "string \<Rightarrow> byte list option"
  cmds_malloc_ok :: bool
  setflags_ok :: bool
  dup2_ok :: bool
  fcntl_ok :: bool
  getpid :: int
  old_posix_spawn :: "spawn_call \<Rightarrow> int \<times> int"

text \<open>The flags of \<^verbatim>\<open><spawn.h>\<close>.\<close>

definition POSIX_SPAWN_SETEXEC :: "16 word" where "POSIX_SPAWN_SETEXEC = 0x0040"
definition POSIX_SPAWN_START_SUSPENDED :: "16 word" where "POSIX_SPAWN_START_SUSPENDED = 0x0080"

text \<open>
  A spawn with \<^verbatim>\<open>POSIX_SPAWN_SETEXEC\<close> that succeeds replaces the calling process
  (line 352: "Since it returned, obviously it was not SETEXEC").
\<close>

definition replaced :: "spawn_call \<Rightarrow> int \<Rightarrow> bool" where
  "replaced call ret =
     (ret = 0 \<and> (case sc_attrp call of
                   None \<Rightarrow> False
                 | Some a \<Rightarrow> attr_flags a AND POSIX_SPAWN_SETEXEC \<noteq> 0))"

subsection \<open>\<^verbatim>\<open>looks_restricted\<close>\<close>

text \<open>
  Lines 83-145, between \<^verbatim>\<open>open\<close> and the label \<^verbatim>\<open>end\<close>: the header (lines
  93-108), then the load commands (lines 109-145). \<open>offset\<close> is a
  \<^verbatim>\<open>uint32_t\<close>: adding the header size wraps. When \<^verbatim>\<open>malloc\<close> returns null, \<^verbatim>\<open>pread\<close>
  into it cannot deliver a byte, so either the count differs from a positive
  \<^verbatim>\<open>sizeofcmds\<close> or \<^verbatim>\<open>memmem\<close> searches zero bytes: the result is false either way.
\<close>

definition scan_cmds :: "world \<Rightarrow> byte list \<Rightarrow> byte list \<Rightarrow> 32 word \<Rightarrow> bool \<times> event list" where
  "scan_cmds w f u offset =
     (case classify_magic (u32_at u 0) of
        None \<Rightarrow> (False, [])
      | Some (swap, is64) \<Rightarrow>
          let sizeofcmds = (if swap then OSSwapInt32 (u32_at u 20) else u32_at u 20);
              offset' = offset + (if is64 then 32 else 28)
          in if \<not> cmds_malloc_ok w then (False, [])
             else
               let cmds_buf = pread f (unat sizeofcmds) (unat offset')
               in if length cmds_buf \<noteq> unat sizeofcmds
                  then (False, [Acquire CmdsBuf, Release CmdsBuf])
                  else (memmem cmds_buf sectname, [Acquire CmdsBuf, Release CmdsBuf]))"

definition inspect_file :: "world \<Rightarrow> byte list \<Rightarrow> bool \<times> event list" where
  "inspect_file w f =
     (case read_header f of
        None \<Rightarrow> (False, [])
      | Some (u, offset) \<Rightarrow> scan_cmds w f u offset)"

definition looks_restricted :: "world \<Rightarrow> string \<Rightarrow> bool \<times> event list" where
  "looks_restricted w filename =
     (case files w filename of
        None \<Rightarrow> (False, [])
      | Some f \<Rightarrow>
          (let (ret, ev) = inspect_file w f
           in (ret, [Acquire InspectorFd] @ ev @ [Release InspectorFd])))"

subsection \<open>\<^verbatim>\<open>spawn_unrestrict\<close> (lines 52-75)\<close>

text \<open>\<^verbatim>\<open>sprintf("%ld")\<close>: the decimal digits, with a minus sign for a negative value.\<close>

fun digits10 :: "nat \<Rightarrow> string" where
  "digits10 n =
     (if n < 10 then [char_of (48 + n)]
      else digits10 (n div 10) @ [char_of (48 + n mod 10)])"

declare digits10.simps [simp del]

definition sprintf_ld :: "int \<Rightarrow> string" where
  "sprintf_ld i = (if i < 0 then CHR ''-'' # digits10 (nat (- i)) else digits10 (nat i))"

definition unrestrict_call :: "int \<Rightarrow> bool \<Rightarrow> bool \<Rightarrow> spawn_call" where
  "unrestrict_call pid should_resume is_exec =
     (let prog = ''/Library/Substitute/Helpers/unrestrict'';
          pid_s = sprintf_ld pid;
          should_resume_s = (if should_resume then ''1'' else ''0'');
          is_exec_s = (if is_exec then ''1'' else ''0'')
      in \<lparr>sc_pidp = ProgPid, sc_path = prog, sc_file_actions = None, sc_attrp = None,
          sc_argv = Some [prog, pid_s, should_resume_s, is_exec_s],
          sc_envp = Some [''_MSSafeMode=1'']\<rparr>)"

definition spawn_unrestrict :: "world \<Rightarrow> int \<Rightarrow> bool \<Rightarrow> bool \<Rightarrow> bool \<times> event list" where
  "spawn_unrestrict w pid should_resume is_exec =
     (let call = unrestrict_call pid should_resume is_exec;
          (ret, prog_pid) = old_posix_spawn w call
      in if ret \<noteq> 0 then (False, [CallOldPosixSpawn call])
         else (True, [CallOldPosixSpawn call, WaitPid prog_pid]))"

subsection \<open>\<^verbatim>\<open>hook_posix_spawn_generic\<close> (lines 156-367)\<close>

text \<open>
  Lines 188-231: which dylib to add, if any. \<open>PolicyFault\<close> is the dereference of a
  null \<^verbatim>\<open>argv\<close>; an \<^verbatim>\<open>argv\<close> whose first element is null is the empty list.
\<close>

datatype policy = PolicyFault | PolicySkip | Inject string

definition dylib_to_add :: "world \<Rightarrow> string \<Rightarrow> string list option \<Rightarrow> policy" where
  "dylib_to_add w path argv =
     (if is_launchd w then
        (if path \<noteq> ''/usr/libexec/xpcproxy'' then PolicySkip
         else if \<not> access_ok w psh_dylib then PolicySkip
         else Inject psh_dylib)
      else if path = ''/Library/Substitute/Helpers/substituted'' \<or> path = ''/usr/sbin/notifyd''
        then PolicySkip
      else
        (case argv of
           None \<Rightarrow> PolicyFault
         | Some av \<Rightarrow>
             if xbasename (case av of [] \<Rightarrow> [] | a0 # _ \<Rightarrow> a0) = ''sshd'' then PolicySkip
             else if \<not> access_ok w bl_dylib then PolicySkip
             else Inject bl_dylib))"

text \<open>
  Lines 233-243: the copy of the caller's attributes, or fresh ones (flags zero);
  \<open>None\<close> is the \<^verbatim>\<open>goto crap\<close>.
\<close>

definition default_attr :: spawnattr where
  "default_attr = \<lparr>attr_flags = 0, attr_other = 0\<rparr>"

definition clone_attr :: "world \<Rightarrow> spawnattr option \<Rightarrow> spawnattr option" where
  "clone_attr w attrp =
     (case attrp of
        Some attr \<Rightarrow> if attr_malloc_ok w then Some attr else None
      | None \<Rightarrow> if attr_init_ok w then Some default_attr else None)"

text \<open>Label \<^verbatim>\<open>cleanup\<close> (lines 362-366): \<^verbatim>\<open>free\<close> of a null pointer does nothing.\<close>

definition cleanup ::
  "string list option \<Rightarrow> string option \<Rightarrow> spawnattr option \<Rightarrow> event list" where
  "cleanup new_envp new my_attr =
     (case new_envp of None \<Rightarrow> [] | Some _ \<Rightarrow> [Release NewEnvp]) @
     (case new of None \<Rightarrow> [] | Some _ \<Rightarrow> [Release NewStr]) @
     (case my_attr of None \<Rightarrow> [] | Some _ \<Rightarrow> [Release MyAttr])"

text \<open>
  Label \<^verbatim>\<open>skip\<close> (line 361), which \<^verbatim>\<open>crap\<close> falls into after its log line: the
  original primitive with the caller's arguments, then \<^verbatim>\<open>cleanup\<close>.
\<close>

definition skip ::
  "(spawn_call \<Rightarrow> int \<times> int) \<Rightarrow> spawn_call \<Rightarrow> event list \<Rightarrow>
   string list option \<Rightarrow> string option \<Rightarrow> spawnattr option \<Rightarrow> outcome \<times> event list" where
  "skip old args tr new_envp new my_attr =
     (let (ret, pid) = old args;
          tr' = tr @ [CallOld args]
      in if replaced args ret then (ProcessReplaced, tr')
         else (Return ret, tr' @ cleanup new_envp new my_attr))"

definition crap ::
  "(spawn_call \<Rightarrow> int \<times> int) \<Rightarrow> spawn_call \<Rightarrow> event list \<Rightarrow>
   string list option \<Rightarrow> string option \<Rightarrow> spawnattr option \<Rightarrow> outcome \<times> event list" where
  "crap old args tr new_envp new my_attr = skip old args tr new_envp new my_attr"

text \<open>
  Lines 344-357: the real call with \<^verbatim>\<open>&my_attr\<close> and \<^verbatim>\<open>envp_to_use\<close>, and the helper
  for the new child. The log line of 348 and line 354 read \<^verbatim>\<open>*pidp\<close>.
\<close>

definition call_real ::
  "world \<Rightarrow> (spawn_call \<Rightarrow> int \<times> int) \<Rightarrow> spawn_call \<Rightarrow> spawnattr \<Rightarrow> string option \<Rightarrow>
   string list \<Rightarrow> bool \<Rightarrow> bool \<Rightarrow> event list \<Rightarrow> outcome \<times> event list" where
  "call_real w old args my_attr new new_envp need_unrestrict was_suspended tr =
     (let call = args\<lparr>sc_attrp := Some my_attr, sc_envp := Some new_envp\<rparr>;
          (ret, pid) = old call;
          tr' = tr @ [CallOld call]
      in if replaced call ret then (ProcessReplaced, tr')
         else if IB_VERBOSE w \<and> sc_pidp args = NullPid then (Crashed, tr')
         else if ret \<noteq> 0
           then (Return ret, tr' @ cleanup (Some new_envp) new (Some my_attr))
         else if sc_pidp args = NullPid then (Crashed, tr')
         else
           let ev = (if need_unrestrict
                     then snd (spawn_unrestrict w pid (\<not> was_suspended) False)
                     else [])
           in (Return ret, tr' @ ev @ cleanup (Some new_envp) new (Some my_attr)))"

text \<open>
  Lines 323-343, then the real call. \<open>was_suspended\<close> is read only when
  \<open>need_unrestrict\<close> holds.
\<close>

definition unrestrict_and_spawn ::
  "world \<Rightarrow> (spawn_call \<Rightarrow> int \<times> int) \<Rightarrow> spawn_call \<Rightarrow> 16 word \<Rightarrow> spawnattr \<Rightarrow>
   string option \<Rightarrow> string list \<Rightarrow> event list \<Rightarrow> outcome \<times> event list" where
  "unrestrict_and_spawn w old args flags my_attr new new_envp tr =
     (let (need_unrestrict, ev) = looks_restricted w (sc_path args);
          tr1 = tr @ ev
      in if need_unrestrict then
           let was_suspended = (flags AND POSIX_SPAWN_START_SUSPENDED \<noteq> 0);
               flags' = flags OR POSIX_SPAWN_START_SUSPENDED
           in if \<not> setflags_ok w
                then crap old args tr1 (Some new_envp) new (Some my_attr)
              else
                let my_attr' = my_attr\<lparr>attr_flags := flags'\<rparr>
                in if flags' AND POSIX_SPAWN_SETEXEC \<noteq> 0 then
                     (if \<not> dup2_ok w
                        then skip old args tr1 (Some new_envp) new (Some my_attr')
                      else
                        let tr2 = tr1 @ [Acquire MarkerFd]
                        in if \<not> fcntl_ok w
                             then crap old args tr2 (Some new_envp) new (Some my_attr')
                           else
                             let (started, ev') =
                                   spawn_unrestrict w (getpid w) (\<not> was_suspended) True;
                                 tr3 = tr2 @ [SetCloexec] @ ev'
                             in if \<not> started
                                  then skip old args tr3 (Some new_envp) new (Some my_attr')
                                else call_real w old args my_attr' new new_envp
                                       True was_suspended tr3)
                   else call_real w old args my_attr' new new_envp True was_suspended tr1
         else call_real w old args my_attr new new_envp False False tr1)"

text \<open>Line 165: the caller's environment, or the process's own when \<^verbatim>\<open>envp\<close> is null.\<close>

definition my_envp :: "world \<Rightarrow> string list option \<Rightarrow> string list" where
  "my_envp w envp = (case envp of Some e \<Rightarrow> e | None \<Rightarrow> environ w)"

text \<open>The whole hook. \<open>old\<close> is the primitive of the entry point.\<close>

definition hook_posix_spawn_generic ::
  "world \<Rightarrow> (spawn_call \<Rightarrow> int \<times> int) \<Rightarrow> spawn_call \<Rightarrow> outcome \<times> event list" where
  "hook_posix_spawn_generic w old args =
     (let my_envp = my_envp w (sc_envp args)
      in if sc_attrp args \<noteq> None \<and> \<not> getflags_ok w then crap old args [] None None None
         else
           let flags = (case sc_attrp args of Some a \<Rightarrow> attr_flags a | None \<Rightarrow> 0)
           in if IB_VERBOSE w \<and> sc_argv args = None then (Crashed, [])
              else
                (case dylib_to_add w (sc_path args) (sc_argv args) of
                   PolicyFault \<Rightarrow> (Crashed, [])
                 | PolicySkip \<Rightarrow> skip old args [] None None None
                 | Inject dylib \<Rightarrow>
                     (case clone_attr w (sc_attrp args) of
                        None \<Rightarrow> crap old args [] None None None
                      | Some my_attr \<Rightarrow>
                          let tr = [Acquire MyAttr]
                          in (case scan_env my_envp False [] 0 of
                                None \<Rightarrow> skip old args tr None None (Some my_attr)
                              | Some (safe_mode, orig_dyld_insert, env_count) \<Rightarrow>
                                  if \<not> new_malloc_ok w then (Crashed, tr)
                                  else
                                    let new = rebuild_dyld_insert safe_mode orig_dyld_insert dylib;
                                        tr1 = tr @ [Acquire NewStr] @
                                              (if new = None then [Release NewStr] else [])
                                    in if \<not> new_envp_malloc_ok w then (Crashed, tr1)
                                       else
                                         let new_envp = build_envp my_envp env_count new;
                                             tr2 = tr1 @ [Acquire NewEnvp]
                                         in if safe_mode
                                              then skip old args tr2 (Some new_envp) new
                                                     (Some my_attr)
                                            else unrestrict_and_spawn w old args flags my_attr
                                                   new new_envp tr2))))"

text \<open>The two entry points (lines 369-383).\<close>

definition hook_posix_spawn ::
  "world \<Rightarrow> spawn_call \<Rightarrow> outcome \<times> event list" where
  "hook_posix_spawn w args = hook_posix_spawn_generic w (old_posix_spawn w) args"

definition hook_posix_spawnp ::
  "world \<Rightarrow> (spawn_call \<Rightarrow> int \<times> int) \<Rightarrow> spawn_call \<Rightarrow> outcome \<times> event list" where
  "hook_posix_spawnp w old_posix_spawnp args = hook_posix_spawn_generic w old_posix_spawnp args"

text \<open>The resources a trace leaves held: acquired and not released since.\<close>

fun held_step :: "resource list \<Rightarrow> event \<Rightarrow> resource list" where
  "held_step h (Acquire r) = r # h"
| "held_step h (Release r) = remove1 r h"
| "held_step h _ = h"

definition held :: "event list \<Rightarrow> resource list" where
  "held tr = foldl held_step [] tr"

subsection \<open>\<^verbatim>\<open>hook_sandbox_check\<close> (lines 385-403)\<close>

text \<open>
  The hook reads five \<^verbatim>\<open>long\<close> slots of its variable arguments whatever the caller
  passed. \<open>cstr_at\<close> is the memory as \<^verbatim>\<open>strcmp\<close> reads it: the string at an address,
  or \<open>None\<close> where the address cannot be read.
\<close>

type_synonym long = "64 word"

record sandbox_call =
  sb_pid :: int
  sb_op :: string
  sb_type :: int
  sb_blah :: "long \<times> long \<times> long \<times> long \<times> long"

datatype sandbox_outcome = SandboxFault | SandboxReturn int

definition hook_sandbox_check ::
  "(long \<Rightarrow> string option) \<Rightarrow> (sandbox_call \<Rightarrow> int) \<Rightarrow> int \<Rightarrow> string \<Rightarrow> int \<Rightarrow>
   long \<times> long \<times> long \<times> long \<times> long \<Rightarrow> sandbox_outcome \<times> sandbox_call list" where
  "hook_sandbox_check cstr_at old_sandbox_check pid op type blah =
     (let call = \<lparr>sb_pid = pid, sb_op = op, sb_type = type, sb_blah = blah\<rparr>;
          forward = (SandboxReturn (old_sandbox_check call), [call])
      in if op = ''mach-lookup'' then
           (case cstr_at (fst blah) of
              None \<Rightarrow> (SandboxFault, [])
            | Some name \<Rightarrow>
                if name = ''com.ex.substituted'' then (SandboxReturn 0, []) else forward)
         else forward)"


section \<open>Concrete inputs\<close>

text \<open>
  A 32-bit little-endian Mach-O file: the magic, five zero fields up to \<^verbatim>\<open>sizeofcmds\<close>
  (11), the flags, then eleven bytes of load commands, which are the marker.
\<close>

definition restricted_macho :: "byte list" where
  "restricted_macho =
     [0xce, 0xfa, 0xed, 0xfe, 0, 0, 0, 0, 0, 0, 0, 0, 0, 0, 0, 0, 0, 0, 0, 0,
      11, 0, 0, 0, 0, 0, 0, 0] @ sectname"

text \<open>
  A process other than launchd in which every library call succeeds; the helper starts
  with pid 500. \<^verbatim>\<open>/bin/restricted\<close> is the file above, no other file opens.
\<close>

definition example_world :: world where
  "example_world =
     \<lparr>is_launchd = False, IB_VERBOSE = False, environ = [], getflags_ok = True,
      access_ok = (\<lambda>p. True), attr_malloc_ok = True, attr_init_ok = True,
      new_malloc_ok = True, new_envp_malloc_ok = True,
      files = (\<lambda>p. if p = ''/bin/restricted'' then Some restricted_macho else None),
      cmds_malloc_ok = True, setflags_ok = True, dup2_ok = True, fcntl_ok = True,
      getpid = 77, old_posix_spawn = (\<lambda>c. (0, 500))\<rparr>"

text \<open>A spawn of \<^verbatim>\<open>/bin/restricted\<close> with default attributes and one variable.\<close>

definition example_args :: spawn_call where
  "example_args =
     \<lparr>sc_pidp = CallerPid, sc_path = ''/bin/restricted'', sc_file_actions = None,
      sc_attrp = None, sc_argv = Some [''restricted''], sc_envp = Some [''A=1'']\<rparr>"


text \<open>
  The same header announcing twelve bytes of load commands, which name a section
  \<^verbatim>\<open>__restricted\<close>: the ten marker characters are there, the NUL after them is not.
\<close>

definition renamed_macho :: "byte list" where
  "renamed_macho =
     [0xce, 0xfa, 0xed, 0xfe, 0, 0, 0, 0, 0, 0, 0, 0, 0, 0, 0, 0, 0, 0, 0, 0,
      12, 0, 0, 0, 0, 0, 0, 0] @ map of_char ''__restricted''"

text \<open>
  A fat file: the big-endian magic, one architecture, whose offset field (bytes 16-19,
  big-endian) is 28, and the file above as that slice.
\<close>

definition fat_macho :: "byte list" where
  "fat_macho =
     [0xca, 0xfe, 0xba, 0xbe, 0, 0, 0, 1, 0, 0, 0, 0, 0, 0, 0, 0, 0, 0, 0, 28,
      0, 0, 0, 39, 0, 0, 0, 0] @ restricted_macho"

section \<open>Vocabulary of the specification\<close>

text \<open>
  The definitions of this section are not translated from the source: they say, in the
  words of the specification, what the theorems below compare the code with.
\<close>

subsection \<open>Colon-separated lists\<close>

text \<open>The fields of a value, split at every colon; the empty value has one empty field.\<close>

primrec colon_fields :: "string \<Rightarrow> string list" where
  "colon_fields [] = [[]]"
| "colon_fields (c # cs) =
     (if c = CHR '':'' then [] # colon_fields cs
      else (case colon_fields cs of [] \<Rightarrow> [[c]] | f # fs \<Rightarrow> (c # f) # fs))"

text \<open>The fields joined again, a colon between neighbours.\<close>

fun colon_join :: "string list \<Rightarrow> string" where
  "colon_join [] = []"
| "colon_join [f] = f"
| "colon_join (f # g # fs) = f @ CHR '':'' # colon_join (g # fs)"

text \<open>One of the two companion libraries.\<close>

definition ours :: "string \<Rightarrow> bool" where
  "ours e = (e = bl_dylib \<or> e = psh_dylib)"

text \<open>
  The elements of a value as the copy loop meets them: its fields, without the empty
  field that follows a final colon (and none at all for the empty value).
\<close>

definition listed_elems :: "string \<Rightarrow> string list" where
  "listed_elems v = (let fs = colon_fields v in if last fs = [] then butlast fs else fs)"

text \<open>
  The elements the copy loop keeps: those that are not a companion library, less the
  empty ones ahead of the first non-empty one (nothing has been written yet when the
  loop meets them, so they leave no colon behind).
\<close>

definition kept_elems :: "string \<Rightarrow> string list" where
  "kept_elems v = dropWhile (\<lambda>e. e = []) (filter (\<lambda>e. \<not> ours e) (listed_elems v))"

text \<open>Writing elements after \<open>out\<close> the way lines 281-285 do.\<close>

definition glue :: "string \<Rightarrow> string list \<Rightarrow> string" where
  "glue = foldl (\<lambda>out e. (if out \<noteq> [] then out @ '':'' else out) @ e)"

subsection \<open>Environment entries\<close>

text \<open>An entry of the injected-libraries variable, and the values of all such entries.\<close>

definition is_dil :: "string \<Rightarrow> bool" where
  "is_dil env = (advance env ''DYLD_INSERT_LIBRARIES='' \<noteq> None)"

definition dil_values :: "string list \<Rightarrow> string list" where
  "dil_values envp = List.map_filter (\<lambda>env. advance env ''DYLD_INSERT_LIBRARIES='') envp"

text \<open>The value of the last such entry, empty when there is none.\<close>

definition last_dil :: "string list \<Rightarrow> string" where
  "last_dil envp = (if dil_values envp = [] then [] else last (dil_values envp))"

text \<open>The values of the entries of the two safe-mode variables, in order.\<close>

definition safe_values :: "string list \<Rightarrow> string list" where
  "safe_values envp =
     List.map_filter (\<lambda>env. case advance env ''_MSSafeMode='' of
                                Some v \<Rightarrow> Some v
                              | None \<Rightarrow> advance env ''_SubstituteSafeMode='') envp"

definition valid_safe_value :: "string \<Rightarrow> bool" where
  "valid_safe_value v = (v = ''0'' \<or> v = ''NO'' \<or> v = ''1'' \<or> v = ''YES'')"

definition enabling_value :: "string \<Rightarrow> bool" where
  "enabling_value v = (v = ''1'' \<or> v = ''YES'')"

subsection \<open>Mach-O files\<close>

text \<open>
  The file is a fat container; where the header of the slice to inspect starts (the
  big-endian offset of the first architecture in a fat file that has its 28 header
  bytes, else 0).
\<close>

definition is_fat :: "byte list \<Rightarrow> bool" where
  "is_fat f = (ntohl (u32_at f 0) = FAT_MAGIC)"

definition slice_start :: "byte list \<Rightarrow> nat" where
  "slice_start f = (if 28 \<le> length f \<and> is_fat f then unat (ntohl (u32_at f 16)) else 0)"

text \<open>
  The load-command bytes that follow the Mach-O header of that slice, with positions
  as natural numbers. \<open>None\<close> for a truncated header, a fat header with no
  architecture, a truncated slice header, an unrecognized magic, and load commands
  that end beyond the file.
\<close>

definition load_commands :: "byte list \<Rightarrow> byte list option" where
  "load_commands f =
     (if length f < 28 then None
      else if is_fat f \<and> u32_at f 4 = 0 then None
      else if length f < slice_start f + 28 then None
      else
        (let hdr = drop (slice_start f) f
         in case classify_magic (u32_at hdr 0) of
              None \<Rightarrow> None
            | Some (swap, is64) \<Rightarrow>
                let n = unat (if swap then OSSwapInt32 (u32_at hdr 20) else u32_at hdr 20);
                    first = slice_start f + (if is64 then 32 else 28)
                in if length f < first + n then None
                   else Some (take n (drop first f))))"

subsection \<open>Calls of the original primitive\<close>

text \<open>The arguments of the calls of \<open>old\<close> in a trace, in order.\<close>

fun old_calls :: "event list \<Rightarrow> spawn_call list" where
  "old_calls [] = []"
| "old_calls (CallOld c # tr) = c # old_calls tr"
| "old_calls (_ # tr) = old_calls tr"

text \<open>
  The hook fell back: its one call of the original primitive had the caller's
  arguments, and the call ended as that primitive did.
\<close>

definition falls_back ::
  "(spawn_call \<Rightarrow> int \<times> int) \<Rightarrow> spawn_call \<Rightarrow> outcome \<times> event list \<Rightarrow> bool" where
  "falls_back old args r =
     (old_calls (snd r) = [args] \<and>
      fst r = (if replaced args (fst (old args)) then ProcessReplaced
               else Return (fst (old args))))"


text \<open>How a call of a primitive ends for the hook's caller.\<close>

definition ended_as :: "(spawn_call \<Rightarrow> int \<times> int) \<Rightarrow> spawn_call \<Rightarrow> outcome" where
  "ended_as old call =
     (if replaced call (fst (old call)) then ProcessReplaced else Return (fst (old call)))"

text \<open>The flags of the caller's attributes, zero when there are none (lines 168-169).\<close>

definition caller_flags :: "spawn_call \<Rightarrow> 16 word" where
  "caller_flags args = (case sc_attrp args of Some a \<Rightarrow> attr_flags a | None \<Rightarrow> 0)"

text \<open>
  The steps of a trace that the unrestriction is about: the calls of the primitives,
  \<^verbatim>\<open>waitpid\<close>, and the marker descriptor's \<^verbatim>\<open>dup2\<close> and \<^verbatim>\<open>fcntl\<close>. Buffers and the
  inspector's descriptor are left out.
\<close>

fun is_step :: "event \<Rightarrow> bool" where
  "is_step (Acquire r) = (r = MarkerFd)"
| "is_step (Release r) = False"
| "is_step _ = True"

definition steps :: "event list \<Rightarrow> event list" where
  "steps tr = filter is_step tr"

text \<open>
  What the hook has acquired when it has built the new environment: the attributes,
  the string \<open>new\<close> (released at once when it is empty) and the array.
\<close>

definition injected_trace :: "string option \<Rightarrow> event list" where
  "injected_trace new =
     [Acquire MyAttr] @ [Acquire NewStr] @ (if new = None then [Release NewStr] else []) @
     [Acquire NewEnvp]"

subsection \<open>The claims as worded\<close>

text \<open>
  The rebuilt environment as claim C2 words it: the value is captured from the first
  entry of the variable, split at the colons, the companion libraries dropped, the
  library appended unless in safe mode.
\<close>

definition claimed_env :: "bool \<Rightarrow> string list \<Rightarrow> string \<Rightarrow> string list" where
  "claimed_env safe_mode envp l =
     filter (\<lambda>env. \<not> is_dil env) envp @
     (let captured = (case dil_values envp of [] \<Rightarrow> [] | v # _ \<Rightarrow> colon_fields v);
          v = colon_join (filter (\<lambda>e. \<not> ours e) captured @ (if safe_mode then [] else [l]))
      in if v = [] then [] else [''DYLD_INSERT_LIBRARIES='' @ v])"

text \<open>
  The safe-mode setting as claim C4 words it: the last non-empty recognized value
  decides.
\<close>

datatype safe_setting = SafeDisabled | SafeEnabled | SkipInjection

definition claimed_safe_mode :: "string list \<Rightarrow> safe_setting" where
  "claimed_safe_mode envp =
     (case filter (\<lambda>v. v \<noteq> []) (safe_values envp) of
        [] \<Rightarrow> SafeDisabled
      | v # vs \<Rightarrow>
          let l = last (v # vs)
          in if l = ''0'' \<or> l = ''NO'' then SafeDisabled
             else if l = ''1'' \<or> l = ''YES'' then SafeEnabled
             else SkipInjection)"

text \<open>
  The verdict as claim C5 words it: the load commands contain the characters of the
  section name \<^verbatim>\<open>__restrict\<close>.
\<close>

definition claimed_pattern :: "byte list" where
  "claimed_pattern = map of_char ''__restrict''"

definition claimed_restricted :: "byte list \<Rightarrow> bool" where
  "claimed_restricted f =
     (case load_commands f of None \<Rightarrow> False | Some cmds \<Rightarrow> sublist claimed_pattern cmds)"

section \<open>Traces\<close>

lemma old_calls_append: "old_calls (tr @ tr') = old_calls tr @ old_calls tr'"
  by (induction tr rule: old_calls.induct) simp_all

lemma old_calls_cleanup: "old_calls (cleanup ne n a) = []"
  by (simp add: cleanup_def split: option.splits)

lemma skip_falls_back: "old_calls tr = [] \<Longrightarrow> falls_back old args (skip old args tr ne n a)"
  by (simp add: falls_back_def skip_def Let_def old_calls_append old_calls_cleanup
        split: prod.splits)

lemma crap_falls_back: "old_calls tr = [] \<Longrightarrow> falls_back old args (crap old args tr ne n a)"
  by (simp add: crap_def skip_falls_back)

lemma dylib_to_add_Some: "dylib_to_add w p (Some av) \<noteq> PolicyFault"
  by (simp add: dylib_to_add_def)

lemma hook_scan_skip:
  assumes "sc_argv args \<noteq> None"
    and "scan_env (my_envp w (sc_envp args)) False [] 0 = None"
  shows "falls_back old args (hook_posix_spawn_generic w old args)"
proof -
  from assms(1) obtain av where av: "sc_argv args = Some av" by auto
  show ?thesis
    using assms(2) dylib_to_add_Some [of w "sc_path args" av]
    by (cases "dylib_to_add w (sc_path args) (Some av)")
       (simp_all add: hook_posix_spawn_generic_def av Let_def skip_falls_back crap_falls_back
          split: option.splits)
qed

lemma hook_policy_skip:
  assumes "sc_argv args \<noteq> None"
    and "dylib_to_add w (sc_path args) (sc_argv args) = PolicySkip"
  shows "hook_posix_spawn_generic w old args = skip old args [] None None None"
  using assms by (auto simp: hook_posix_spawn_generic_def crap_def Let_def)

lemma skip_nothing:
  "skip old args [] None None None =
     (if replaced args (fst (old args)) then ProcessReplaced else Return (fst (old args)),
      [CallOld args])"
  by (simp add: skip_def cleanup_def Let_def split: prod.splits)

section \<open>The environment rewriter\<close>

lemma advance_self: "advance (t @ v) t = Some v"
  by (simp add: advance_def)

lemma colon_fields_nonempty: "colon_fields p \<noteq> []"
  by (induction p) (auto split: list.splits)

lemma colon_fields_unfold:
  "colon_fields p = takeWhile (\<lambda>c. c \<noteq> CHR '':'') p #
     (case dropWhile (\<lambda>c. c \<noteq> CHR '':'') p of [] \<Rightarrow> [] | c # r \<Rightarrow> colon_fields r)"
  by (induction p) (auto split: list.splits simp: colon_fields_nonempty)

lemma colon_fields_no_colon: "f \<in> set (colon_fields p) \<Longrightarrow> CHR '':'' \<notin> set f"
  by (induction p arbitrary: f) (auto split: list.splits if_splits)

lemma listed_elems_last:
  assumes "p \<noteq> []" and "dropWhile (\<lambda>c. c \<noteq> CHR '':'') p = []"
  shows "listed_elems p = [p]"
proof -
  have tw: "takeWhile (\<lambda>c. c \<noteq> CHR '':'') p = p"
    using assms(2) by (simp add: dropWhile_eq_Nil_conv takeWhile_eq_all_conv)
  have "colon_fields p = [p]"
    using colon_fields_unfold [of p] by (simp add: assms(2) tw)
  then show ?thesis
    using assms(1) by (simp add: listed_elems_def)
qed

lemma listed_elems_step:
  "dropWhile (\<lambda>c. c \<noteq> CHR '':'') p = c # r \<Longrightarrow>
     listed_elems p = takeWhile (\<lambda>c. c \<noteq> CHR '':'') p # listed_elems r"
  using colon_fields_unfold [of p] colon_fields_nonempty [of r]
  by (simp add: listed_elems_def Let_def)

lemma listed_elems_Nil: "listed_elems [] = []"
  by (simp add: listed_elems_def)

lemma glue_Nil: "glue out [] = out"
  by (simp add: glue_def)

lemma glue_Cons: "glue out (e # es) = glue ((if out \<noteq> [] then out @ '':'' else out) @ e) es"
  by (simp add: glue_def)

lemma append_not_ours_glue:
  "append_not_ours p out = glue out (filter (\<lambda>e. \<not> ours e) (listed_elems p))"
proof (induction p out rule: append_not_ours.induct)
  case (1 p out)
  show ?case
  proof (cases "p = []")
    case True
    then show ?thesis by (simp add: listed_elems_Nil glue_Nil append_not_ours.simps)
  next
    case False
    show ?thesis
    proof (cases "dropWhile (\<lambda>c. c \<noteq> CHR '':'') p")
      case Nil
      with False have le: "listed_elems p = [p]" by (rule listed_elems_last)
      from Nil have tw: "takeWhile (\<lambda>c. c \<noteq> CHR '':'') p = p"
        by (simp add: dropWhile_eq_Nil_conv takeWhile_eq_all_conv)
      show ?thesis
        using False Nil
        by (subst append_not_ours.simps) (simp add: le tw glue_Cons glue_Nil ours_def Let_def)
    next
      case (Cons c r)
      have le: "listed_elems p = takeWhile (\<lambda>c. c \<noteq> CHR '':'') p # listed_elems r"
        using Cons by (rule listed_elems_step)
      show ?thesis
        using False Cons "1.IH"[OF False refl refl refl refl]
        by (subst append_not_ours.simps) (simp add: le glue_Cons ours_def Let_def)
    qed
  qed
qed

lemma advance_hd: "advance e t = Some v \<Longrightarrow> t \<noteq> [] \<Longrightarrow> e \<noteq> [] \<and> hd e = hd t"
  by (cases e; cases t) (auto simp: advance_def Let_def split: if_splits)

lemma dil_not_safe:
  assumes "advance e ''DYLD_INSERT_LIBRARIES='' = Some v"
  shows "advance e ''_MSSafeMode='' = None" and "advance e ''_SubstituteSafeMode='' = None"
proof -
  have h: "hd e = CHR ''D''" using advance_hd [OF assms] by simp
  show "advance e ''_MSSafeMode='' = None"
  proof (cases "advance e ''_MSSafeMode=''")
    case (Some u)
    then show ?thesis using advance_hd [OF Some] h by simp
  qed simp
  show "advance e ''_SubstituteSafeMode='' = None"
  proof (cases "advance e ''_SubstituteSafeMode=''")
    case (Some u)
    then show ?thesis using advance_hd [OF Some] h by simp
  qed simp
qed

lemma scan_env_char:
  "scan_env envp sm odi n =
     (if list_all valid_safe_value (safe_values envp)
      then Some (sm \<or> list_ex enabling_value (safe_values envp),
                 if dil_values envp = [] then odi else last (dil_values envp),
                 n + length envp)
      else None)"
proof (induction envp arbitrary: sm odi n)
  case Nil
  show ?case by (simp add: safe_values_def dil_values_def map_filter_simps)
next
  case (Cons env ep)
  show ?case
  proof (cases "case advance env ''_MSSafeMode='' of Some v \<Rightarrow> Some v
                | None \<Rightarrow> advance env ''_SubstituteSafeMode=''")
    case None
    then show ?thesis
      by (cases "advance env ''DYLD_INSERT_LIBRARIES=''")
         (simp_all add: Cons.IH safe_values_def dil_values_def map_filter_simps)
  next
    case (Some v)
    have nd: "advance env ''DYLD_INSERT_LIBRARIES='' = None"
    proof (cases "advance env ''DYLD_INSERT_LIBRARIES=''")
      case (Some u)
      from dil_not_safe [OF Some] \<open>(case advance env ''_MSSafeMode='' of Some v \<Rightarrow> Some v
                | None \<Rightarrow> advance env ''_SubstituteSafeMode='') = Some v\<close>
      show ?thesis by simp
    qed simp
    have sv: "safe_values (env # ep) = v # safe_values ep"
      using Some by (simp add: safe_values_def map_filter_simps)
    have dv: "dil_values (env # ep) = dil_values ep"
      using nd by (simp add: dil_values_def map_filter_simps)
    have step: "scan_env (env # ep) sm odi n =
        (if v = ''0'' \<or> v = ''NO'' then scan_env ep sm odi (Suc n)
         else if v = ''1'' \<or> v = ''YES'' then scan_env ep True odi (Suc n)
         else None)"
      using Some by simp
    consider (off) "v = ''0'' \<or> v = ''NO''" | (on) "v = ''1'' \<or> v = ''YES''"
      | (bad) "\<not> valid_safe_value v"
      by (auto simp: valid_safe_value_def)
    then show ?thesis
    proof cases
      case off
      then have "valid_safe_value v" "\<not> enabling_value v"
        by (auto simp: valid_safe_value_def enabling_value_def)
      with off show ?thesis
        unfolding step sv dv by (simp add: Cons.IH)
    next
      case on
      then have "valid_safe_value v" "enabling_value v" "\<not> (v = ''0'' \<or> v = ''NO'')"
        by (auto simp: valid_safe_value_def enabling_value_def)
      with on show ?thesis
        unfolding step sv dv by (simp add: Cons.IH)
    next
      case bad
      then have "\<not> (v = ''0'' \<or> v = ''NO'')" "\<not> (v = ''1'' \<or> v = ''YES'')"
        by (auto simp: valid_safe_value_def)
      with bad show ?thesis
        unfolding step sv dv by simp
    qed
  qed
qed

lemma glue_nonempty: "out \<noteq> [] \<Longrightarrow> glue out ks = out @ concat (map (\<lambda>k. CHR '':'' # k) ks)"
  by (induction ks arbitrary: out) (simp_all add: glue_Nil glue_Cons)

lemma colon_join_Cons: "colon_join (k # ks) = k @ concat (map (\<lambda>k. CHR '':'' # k) ks)"
  by (induction ks arbitrary: k) simp_all

lemma glue_empty: "glue [] ks = colon_join (dropWhile (\<lambda>e. e = []) ks)"
proof (induction ks)
  case Nil
  show ?case by (simp add: glue_Nil)
next
  case (Cons k ks)
  show ?case
  proof (cases "k = []")
    case True
    then show ?thesis using Cons by (simp add: glue_Cons)
  next
    case False
    then show ?thesis by (simp add: glue_Cons glue_nonempty colon_join_Cons)
  qed
qed

lemma colon_join_snoc:
  "colon_join (ds @ [l]) = (if ds = [] then l else colon_join ds @ CHR '':'' # l)"
  by (induction ds rule: colon_join.induct) simp_all

lemma colon_join_eq_Nil: "ds \<noteq> [] \<Longrightarrow> hd ds \<noteq> [] \<Longrightarrow> colon_join ds \<noteq> []"
  by (cases ds) (simp_all add: colon_join_Cons)

lemma kept_elems_hd: "kept_elems v \<noteq> [] \<Longrightarrow> hd (kept_elems v) \<noteq> []"
  unfolding kept_elems_def by (metis (mono_tags, lifting) hd_dropWhile)

lemma rebuild_char:
  "rebuild_dyld_insert sm odi l =
     (let v = colon_join (kept_elems odi @ (if sm then [] else [l]))
      in if v = [] then None else Some (''DYLD_INSERT_LIBRARIES='' @ v))"
proof -
  have out: "append_not_ours odi [] = colon_join (kept_elems odi)"
    by (simp add: append_not_ours_glue glue_empty kept_elems_def)
  have ne: "kept_elems odi \<noteq> [] \<Longrightarrow> colon_join (kept_elems odi) \<noteq> []"
    by (rule colon_join_eq_Nil) (simp_all add: kept_elems_hd)
  show ?thesis
  proof (cases "kept_elems odi = []")
    case True
    then show ?thesis
      by (simp add: rebuild_dyld_insert_def out Let_def)
  next
    case False
    with ne show ?thesis
      by (simp add: rebuild_dyld_insert_def out Let_def colon_join_snoc)
  qed
qed

lemma scan_count:
  "scan_env envp sm odi n = Some (sm', odi', n') \<Longrightarrow> n' = n + length envp"
  by (simp add: scan_env_char split: if_splits)

lemma rewrite_env_char:
  "rewrite_env envp l =
     (if list_all valid_safe_value (safe_values envp)
      then Some (list_ex enabling_value (safe_values envp),
                 filter (\<lambda>env. \<not> is_dil env) envp @
                 (let v = colon_join (kept_elems (last_dil envp) @
                            (if list_ex enabling_value (safe_values envp) then [] else [l]))
                  in if v = [] then [] else [''DYLD_INSERT_LIBRARIES='' @ v]))
      else None)"
  by (simp add: rewrite_env_def scan_env_char build_envp_def rebuild_char last_dil_def
        is_dil_def Let_def)

lemma colon_fields_plain: "CHR '':'' \<notin> set f \<Longrightarrow> colon_fields f = [f]"
  by (induction f) auto

lemma colon_fields_append:
  "CHR '':'' \<notin> set f \<Longrightarrow> colon_fields (f @ CHR '':'' # rest) = f # colon_fields rest"
  by (induction f) (auto simp: colon_fields_nonempty split: list.splits)

lemma colon_fields_join:
  "ks \<noteq> [] \<Longrightarrow> \<forall>k \<in> set ks. CHR '':'' \<notin> set k \<Longrightarrow> colon_fields (colon_join ks) = ks"
  by (induction ks rule: colon_join.induct)
     (simp_all add: colon_fields_plain colon_fields_append)

lemma listed_elems_no_colon: "f \<in> set (listed_elems v) \<Longrightarrow> CHR '':'' \<notin> set f"
  using colon_fields_no_colon [of f v]
  by (auto simp: listed_elems_def Let_def dest: in_set_butlastD split: if_splits)

lemma kept_elems_no_colon: "f \<in> set (kept_elems v) \<Longrightarrow> CHR '':'' \<notin> set f"
  unfolding kept_elems_def using listed_elems_no_colon set_dropWhileD by fastforce

lemma kept_elems_not_ours: "f \<in> set (kept_elems v) \<Longrightarrow> \<not> ours f"
  unfolding kept_elems_def using set_dropWhileD by fastforce

lemma ours_props: "ours l \<Longrightarrow> l \<noteq> [] \<and> CHR '':'' \<notin> set l"
  by (auto simp: ours_def bl_dylib_def psh_dylib_def)

lemma kept_elems_join:
  assumes "ours l"
  shows "kept_elems (colon_join (kept_elems v @ [l])) = kept_elems v"
proof -
  let ?D = "kept_elems v"
  have nc: "\<forall>k \<in> set (?D @ [l]). CHR '':'' \<notin> set k"
    using kept_elems_no_colon ours_props [OF assms] by auto
  have cf: "colon_fields (colon_join (?D @ [l])) = ?D @ [l]"
    by (rule colon_fields_join) (use nc in simp_all)
  have le: "listed_elems (colon_join (?D @ [l])) = ?D @ [l]"
    using ours_props [OF assms] by (simp add: listed_elems_def cf)
  have flt: "filter (\<lambda>e. \<not> ours e) (?D @ [l]) = ?D"
    using assms kept_elems_not_ours by (simp add: filter_id_conv)
  have "dropWhile (\<lambda>e. e = []) ?D = ?D"
    unfolding kept_elems_def by (rule dropWhile_idem)
  then show ?thesis
    by (simp only: kept_elems_def [of "colon_join (?D @ [l])"] le flt)
qed

lemma map_filter_append:
  "List.map_filter f (xs @ ys) = List.map_filter f xs @ List.map_filter f ys"
  by (simp add: List.map_filter_def)

lemma safe_values_append: "safe_values (xs @ ys) = safe_values xs @ safe_values ys"
  by (simp add: safe_values_def map_filter_append)

lemma dil_values_append: "dil_values (xs @ ys) = dil_values xs @ dil_values ys"
  by (simp add: dil_values_def map_filter_append)

lemma safe_values_filter: "safe_values (filter (\<lambda>env. \<not> is_dil env) envp) = safe_values envp"
proof (induction envp)
  case Nil
  show ?case by simp
next
  case (Cons env ep)
  show ?case
  proof (cases "is_dil env")
    case True
    then obtain v where "advance env ''DYLD_INSERT_LIBRARIES='' = Some v"
      by (auto simp: is_dil_def)
    from dil_not_safe [OF this] True Cons show ?thesis
      by (simp add: safe_values_def map_filter_simps)
  next
    case False
    with Cons show ?thesis
      by (simp add: safe_values_def map_filter_simps split: option.splits)
  qed
qed

lemma dil_values_filter: "dil_values (filter (\<lambda>env. \<not> is_dil env) envp) = []"
  by (induction envp) (auto simp: dil_values_def is_dil_def map_filter_simps)

lemma is_dil_entry: "is_dil (''DYLD_INSERT_LIBRARIES='' @ v)"
  by (simp only: is_dil_def advance_self) simp

lemma safe_values_entry: "safe_values [''DYLD_INSERT_LIBRARIES='' @ v] = []"
  by (simp only: safe_values_def map_filter_simps option.case
        dil_not_safe [OF advance_self [of "''DYLD_INSERT_LIBRARIES=''" v]])

lemma dil_values_entry: "dil_values [''DYLD_INSERT_LIBRARIES='' @ v] = [v]"
  by (simp only: dil_values_def map_filter_simps option.case advance_self)

lemma rewrite_env_idem:
  assumes l: "ours l" and r: "rewrite_env envp l = Some (False, envp')"
  shows "rewrite_env envp' l = Some (False, envp')"
proof -
  let ?F = "filter (\<lambda>env. \<not> is_dil env) envp"
  let ?v = "colon_join (kept_elems (last_dil envp) @ [l])"
  from r have valid: "list_all valid_safe_value (safe_values envp)"
    and off: "\<not> list_ex enabling_value (safe_values envp)"
    by (auto simp: rewrite_env_char split: if_splits)
  have vne: "?v \<noteq> []"
    using ours_props [OF l] by (simp add: colon_join_snoc)
  from r valid off vne have e': "envp' = ?F @ [''DYLD_INSERT_LIBRARIES='' @ ?v]"
    by (simp add: rewrite_env_char Let_def)
  have sv: "safe_values envp' = safe_values envp"
    by (simp only: e' safe_values_append safe_values_filter safe_values_entry append_Nil2)
  have dv: "dil_values envp' = [?v]"
    by (simp only: e' dil_values_append dil_values_filter dil_values_entry append_Nil)
  have ld: "last_dil envp' = ?v"
    by (simp add: last_dil_def dv)
  have ff: "filter (\<lambda>env. \<not> is_dil env) envp' = ?F"
    by (simp only: e' filter_append filter_filter filter.simps is_dil_entry
          conj_absorb not_True_eq_False if_False append_Nil2)
  have "rewrite_env envp' l = Some (False, ?F @ [''DYLD_INSERT_LIBRARIES='' @ ?v])"
    unfolding rewrite_env_char [of envp' l] sv ld ff kept_elems_join [OF l]
    using valid off vne by (simp add: Let_def)
  then show ?thesis
    by (simp only: e')
qed

lemma rewrite_env_safe_clean:
  assumes r: "rewrite_env envp l = Some (True, envp')"
    and v: "v \<in> set (dil_values envp')"
  shows "bl_dylib \<notin> set (colon_fields v) \<and> psh_dylib \<notin> set (colon_fields v)"
proof -
  let ?F = "filter (\<lambda>env. \<not> is_dil env) envp"
  let ?D = "kept_elems (last_dil envp)"
  from r have on: "list_ex enabling_value (safe_values envp)"
    and e': "envp' = ?F @ (if colon_join ?D = [] then [] else [''DYLD_INSERT_LIBRARIES='' @ colon_join ?D])"
    by (auto simp: rewrite_env_char Let_def split: if_splits)
  have "dil_values envp' = (if colon_join ?D = [] then [] else [colon_join ?D])"
  proof (cases "colon_join ?D = []")
    case True
    then show ?thesis by (simp add: e' dil_values_filter)
  next
    case False
    then show ?thesis
      by (simp only: e' dil_values_append dil_values_filter dil_values_entry append_Nil if_False)
  qed
  with v have veq: "v = colon_join ?D" and ne: "colon_join ?D \<noteq> []"
    by (auto split: if_splits)
  from ne have "?D \<noteq> []" by auto
  then have "colon_fields v = ?D"
    unfolding veq using kept_elems_no_colon by (intro colon_fields_join) auto
  then show ?thesis
    using kept_elems_not_ours [of bl_dylib "last_dil envp"]
      kept_elems_not_ours [of psh_dylib "last_dil envp"]
    by (auto simp: ours_def)
qed


lemma kept_elems_rejoin:
  assumes ne: "kept_elems v \<noteq> []"
  shows "kept_elems (colon_join (kept_elems v)) =
           (if last (kept_elems v) = [] then butlast (kept_elems v) else kept_elems v)"
proof -
  let ?D = "kept_elems v"
  have hd: "hd ?D \<noteq> []" using ne by (rule kept_elems_hd)
  have cf: "colon_fields (colon_join ?D) = ?D"
    using ne kept_elems_no_colon by (intro colon_fields_join) auto
  have le: "listed_elems (colon_join ?D) = (if last ?D = [] then butlast ?D else ?D)"
    by (simp add: listed_elems_def cf)
  have f1: "filter (\<lambda>e. \<not> ours e) ?D = ?D"
    using kept_elems_not_ours by (simp add: filter_id_conv)
  have f2: "filter (\<lambda>e. \<not> ours e) (butlast ?D) = butlast ?D"
    using kept_elems_not_ours by (auto simp: filter_id_conv dest: in_set_butlastD)
  have d1: "dropWhile (\<lambda>e. e = []) ?D = ?D"
    using ne hd by (cases ?D) simp_all
  have d2: "dropWhile (\<lambda>e. e = []) (butlast ?D) = butlast ?D"
  proof (cases ?D)
    case Nil
    with ne show ?thesis by simp
  next
    case (Cons d ds)
    with hd have "d \<noteq> []" by simp
    then show ?thesis unfolding Cons by (cases ds) simp_all
  qed
  show ?thesis
    by (simp only: kept_elems_def [of "colon_join ?D"] le f1 f2 d1 d2 if_distrib [of "filter _"]
          if_distrib [of "dropWhile _"] cong: if_cong)
qed

lemma colon_join_butlast:
  assumes "ds \<noteq> []" "hd ds \<noteq> []" "last ds = []"
  shows "colon_join ds = colon_join (butlast ds) @ '':''"
proof -
  from assms have bl: "butlast ds \<noteq> []"
    by (cases ds rule: rev_cases) auto
  have "ds = butlast ds @ [[]]"
    using assms(1,3) by (metis append_butlast_last_id)
  then have "colon_join ds = colon_join (butlast ds @ [[]])" by simp
  then show ?thesis using bl by (simp only: colon_join_snoc) simp
qed

lemma rewrite_env_again_safe:
  assumes r: "rewrite_env envp l = Some (True, envp')"
  shows "\<exists>envp''. rewrite_env envp' l = Some (True, envp'') \<and>
           filter (\<lambda>env. \<not> is_dil env) envp'' = filter (\<lambda>env. \<not> is_dil env) envp' \<and>
           list_all2 prefix (dil_values envp'') (dil_values envp')"
proof -
  let ?F = "filter (\<lambda>env. \<not> is_dil env) envp"
  let ?D = "kept_elems (last_dil envp)"
  let ?X = "\<lambda>v. if v = [] then [] else [''DYLD_INSERT_LIBRARIES='' @ v]"
  from r have valid: "list_all valid_safe_value (safe_values envp)"
    and on: "list_ex enabling_value (safe_values envp)"
    and e': "envp' = ?F @ ?X (colon_join ?D)"
    by (auto simp: rewrite_env_char Let_def split: if_splits)
  have svX: "\<And>v. safe_values (?X v) = []"
    using safe_values_entry by (simp add: safe_values_def map_filter_simps)
  have dvX: "\<And>v. dil_values (?X v) = (if v = [] then [] else [v])"
    using dil_values_entry by (simp add: dil_values_def map_filter_simps)
  have fX: "\<And>v. filter (\<lambda>env. \<not> is_dil env) (?X v) = []"
    using is_dil_entry by simp
  have sv: "safe_values envp' = safe_values envp"
    by (simp only: e' safe_values_append safe_values_filter svX append_Nil2)
  have dv: "dil_values envp' = (if colon_join ?D = [] then [] else [colon_join ?D])"
    by (simp only: e' dil_values_append dil_values_filter dvX append_Nil)
  have ff: "filter (\<lambda>env. \<not> is_dil env) envp' = ?F"
    by (simp only: e' filter_append filter_filter fX conj_absorb append_Nil2)
  let ?D' = "kept_elems (last_dil envp')"
  let ?e'' = "?F @ ?X (colon_join ?D')"
  have again: "rewrite_env envp' l = Some (True, ?e'')"
    unfolding rewrite_env_char [of envp' l] sv ff
    using valid on by (simp only: if_True Let_def append_Nil2)
  have ff'': "filter (\<lambda>env. \<not> is_dil env) ?e'' = ?F"
    by (simp only: filter_append filter_filter fX conj_absorb append_Nil2)
  have dv'': "dil_values ?e'' = (if colon_join ?D' = [] then [] else [colon_join ?D'])"
    by (simp only: dil_values_append dil_values_filter dvX append_Nil)
  have key: "prefix (colon_join ?D') (colon_join ?D) \<and>
             ((colon_join ?D' = []) = (colon_join ?D = []))"
  proof (cases "?D = []")
    case True
    then have "last_dil envp' = []" by (simp add: last_dil_def dv)
    then have "?D' = []" by (simp add: kept_elems_def listed_elems_def)
    with True show ?thesis by simp
  next
    case False
    then have jne: "colon_join ?D \<noteq> []"
      by (intro colon_join_eq_Nil kept_elems_hd)
    then have ld: "last_dil envp' = colon_join ?D" by (simp add: last_dil_def dv)
    have D': "?D' = (if last ?D = [] then butlast ?D else ?D)"
      unfolding ld by (rule kept_elems_rejoin [OF False])
    show ?thesis
    proof (cases "last ?D = []")
      case True
      have a: "colon_join ?D = colon_join (butlast ?D) @ '':''"
        using False kept_elems_hd [OF False] True by (rule colon_join_butlast)
      have b: "colon_join (butlast ?D) \<noteq> []"
      proof -
        from False True kept_elems_hd [OF False] have "butlast ?D \<noteq> []"
          by (cases ?D rule: rev_cases) auto
        moreover from this have "hd (butlast ?D) = hd ?D"
          by (cases ?D) (auto split: if_splits)
        ultimately show ?thesis
          using kept_elems_hd [OF False] by (intro colon_join_eq_Nil) auto
      qed
      from True have "?D' = butlast ?D" by (simp add: D')
      then show ?thesis using a b jne by simp
    next
      case False
      then have "?D' = ?D" by (simp add: D')
      then show ?thesis by simp
    qed
  qed
  have pre: "list_all2 prefix (dil_values ?e'') (dil_values envp')"
    unfolding dv dv'' using key by simp
  from again ff'' ff pre show ?thesis by (intro exI [of _ ?e'']) simp
qed

subsection \<open>Claim C2\<close>

text \<open>
  C2, as stated: the rebuilt entry of the injected-libraries variable takes its value
  from the first original occurrence. The code captures on every occurrence (line 263
  overwrites \<open>orig_dyld_insert\<close>), so the last occurrence is the one that counts: with
  two entries \<^verbatim>\<open>/a.dylib\<close> and \<^verbatim>\<open>/b.dylib\<close> the rebuilt value starts with
  \<^verbatim>\<open>/b.dylib\<close>, where the claim has \<^verbatim>\<open>/a.dylib\<close>.
\<close>

theorem C2_first_occurrence_counterexample:
  "rewrite_env [''DYLD_INSERT_LIBRARIES=/a.dylib'', ''DYLD_INSERT_LIBRARIES=/b.dylib''] bl_dylib =
     Some (False,
       [''DYLD_INSERT_LIBRARIES=/b.dylib:/Library/Substitute/Helpers/bundle-loader.dylib''])
   \<and> claimed_env False
       [''DYLD_INSERT_LIBRARIES=/a.dylib'', ''DYLD_INSERT_LIBRARIES=/b.dylib''] bl_dylib =
     [''DYLD_INSERT_LIBRARIES=/a.dylib:/Library/Substitute/Helpers/bundle-loader.dylib'']"
  by code_simp

text \<open>
  C2, amended: whenever the scan does not skip, the new environment is the input
  without any entry of the injected-libraries variable, the other entries verbatim and
  in order, followed by at most one rebuilt entry, left out when its value would be
  empty. Its value is built from the value of the last original entry: the
  colon-separated elements (an empty element after a final colon is not one), without
  those equal to either companion library and without the empty elements ahead of the
  first non-empty kept one, followed by the requested library unless safe mode is on,
  joined by colons.
\<close>

theorem C2_rewrite_env:
  assumes "rewrite_env envp l = Some (safe_mode, envp')"
  shows "envp' =
           filter (\<lambda>env. \<not> is_dil env) envp @
           (let v = colon_join (kept_elems (last_dil envp) @ (if safe_mode then [] else [l]))
            in if v = [] then [] else [''DYLD_INSERT_LIBRARIES='' @ v])
         \<and> length (filter is_dil envp') \<le> 1"
proof -
  let ?v = "colon_join (kept_elems (last_dil envp) @ (if safe_mode then [] else [l]))"
  let ?X = "if ?v = [] then [] else [''DYLD_INSERT_LIBRARIES='' @ ?v]"
  from assms have e': "envp' = filter (\<lambda>env. \<not> is_dil env) envp @ ?X"
    by (auto simp: rewrite_env_char Let_def split: if_splits)
  have "filter is_dil (filter (\<lambda>env. \<not> is_dil env) envp) = []"
    by (induction envp) simp_all
  then have "length (filter is_dil envp') \<le> 1"
    unfolding e' by (simp add: is_dil_entry)
  with e' show ?thesis
    by (simp only: Let_def)
qed

theorem C2_rewrite_env_witness:
  "rewrite_env [''A=1'', ''DYLD_INSERT_LIBRARIES=/x.dylib:/Library/Substitute/Helpers/bundle-loader.dylib'',
                ''DYLD_INSERT_LIBRARIES=/y.dylib'', ''B=2''] psh_dylib =
     Some (False, [''A=1'', ''B=2'',
       ''DYLD_INSERT_LIBRARIES=/y.dylib:/Library/Substitute/Helpers/posixspawn-hook.dylib''])
   \<and> length (filter is_dil [''A=1'', ''B=2'',
       ''DYLD_INSERT_LIBRARIES=/y.dylib:/Library/Substitute/Helpers/posixspawn-hook.dylib'']) \<le> 1"
proof -
  have h: "rewrite_env [''A=1'', ''DYLD_INSERT_LIBRARIES=/x.dylib:/Library/Substitute/Helpers/bundle-loader.dylib'',
                ''DYLD_INSERT_LIBRARIES=/y.dylib'', ''B=2''] psh_dylib =
     Some (False, [''A=1'', ''B=2'',
       ''DYLD_INSERT_LIBRARIES=/y.dylib:/Library/Substitute/Helpers/posixspawn-hook.dylib''])"
    by code_simp
  from C2_rewrite_env [OF h] h show ?thesis by blast
qed

subsection \<open>Claim C3\<close>

text \<open>
  C3, as stated: rewriting a rewritten environment again yields the same
  injected-libraries value, for every environment. With safe mode on the library is
  not appended, and a value that ends in an empty element loses its last colon on the
  second pass: \<^verbatim>\<open>/x.dylib::\<close> becomes \<^verbatim>\<open>/x.dylib:\<close>, which becomes \<^verbatim>\<open>/x.dylib\<close>.
\<close>

theorem C3_safe_mode_counterexample:
  "rewrite_env [''_MSSafeMode=1'', ''DYLD_INSERT_LIBRARIES=/x.dylib::''] bl_dylib =
     Some (True, [''_MSSafeMode=1'', ''DYLD_INSERT_LIBRARIES=/x.dylib:''])
   \<and> rewrite_env [''_MSSafeMode=1'', ''DYLD_INSERT_LIBRARIES=/x.dylib:''] bl_dylib =
     Some (True, [''_MSSafeMode=1'', ''DYLD_INSERT_LIBRARIES=/x.dylib''])"
  by code_simp

text \<open>
  C3, amended: for each of the two companion libraries \<open>l\<close> (the values
  \<^verbatim>\<open>dylib_to_add\<close> takes) and every environment the scan does not skip, the rewritten
  environment can be rewritten again with \<open>l\<close>, with the same safe-mode flag. With safe
  mode off the second result is the first: the rewrite is idempotent. With safe mode
  on, the other entries are the same and the injected-libraries value of the second
  result is a prefix of the first's. Either way the value never grows.
\<close>

theorem C3_rewrite_idempotent:
  assumes "l = bl_dylib \<or> l = psh_dylib"
    and "rewrite_env envp l = Some (safe_mode, envp')"
  shows "\<exists>envp''. rewrite_env envp' l = Some (safe_mode, envp'') \<and>
           (\<not> safe_mode \<longrightarrow> envp'' = envp') \<and>
           filter (\<lambda>env. \<not> is_dil env) envp'' = filter (\<lambda>env. \<not> is_dil env) envp' \<and>
           list_all2 prefix (dil_values envp'') (dil_values envp')"
proof (cases safe_mode)
  case True
  with assms(2) rewrite_env_again_safe [of envp l envp'] show ?thesis by simp
next
  case False
  from assms(1) have "ours l" by (simp add: ours_def)
  from rewrite_env_idem [OF this] assms(2) False
  have "rewrite_env envp' l = Some (False, envp')" by simp
  with False show ?thesis
    by (intro exI [of _ envp']) (simp add: list.rel_refl)
qed

theorem C3_rewrite_idempotent_witness:
  "rewrite_env [''A=1'', ''DYLD_INSERT_LIBRARIES=/x.dylib''] bl_dylib =
     Some (False, [''A=1'',
       ''DYLD_INSERT_LIBRARIES=/x.dylib:/Library/Substitute/Helpers/bundle-loader.dylib''])
   \<and> rewrite_env [''A=1'',
       ''DYLD_INSERT_LIBRARIES=/x.dylib:/Library/Substitute/Helpers/bundle-loader.dylib''] bl_dylib =
     Some (False, [''A=1'',
       ''DYLD_INSERT_LIBRARIES=/x.dylib:/Library/Substitute/Helpers/bundle-loader.dylib''])"
proof -
  have h: "rewrite_env [''A=1'', ''DYLD_INSERT_LIBRARIES=/x.dylib''] bl_dylib =
     Some (False, [''A=1'',
       ''DYLD_INSERT_LIBRARIES=/x.dylib:/Library/Substitute/Helpers/bundle-loader.dylib''])"
    by code_simp
  have "bl_dylib = bl_dylib \<or> bl_dylib = psh_dylib" by simp
  from C3_rewrite_idempotent [OF this h] h show ?thesis by auto
qed

subsection \<open>Claim C4\<close>

text \<open>
  C4, as stated: the last non-empty recognized safe-mode value wins. In the code a
  value \<^verbatim>\<open>0\<close> or \<^verbatim>\<open>NO\<close> only continues the loop (line 257) and never resets
  \<open>safe_mode\<close>: after \<^verbatim>\<open>_MSSafeMode=1\<close>, a later \<^verbatim>\<open>_MSSafeMode=0\<close> leaves safe mode on.
\<close>

theorem C4_last_value_counterexample:
  "scan_env [''_MSSafeMode=1'', ''_MSSafeMode=0''] False [] 0 = Some (True, [], 2)
   \<and> claimed_safe_mode [''_MSSafeMode=1'', ''_MSSafeMode=0''] = SafeDisabled"
  by code_simp

text \<open>
  C4, amended: over the entries of the two synonymous variables \<^verbatim>\<open>_MSSafeMode\<close> and
  \<^verbatim>\<open>_SubstituteSafeMode\<close>, the scan skips exactly when some value is none of
  \<^verbatim>\<open>0\<close>, \<^verbatim>\<open>NO\<close>, \<^verbatim>\<open>1\<close>, \<^verbatim>\<open>YES\<close> (the empty value is such a value); otherwise safe
  mode is on exactly when some value is \<^verbatim>\<open>1\<close> or \<^verbatim>\<open>YES\<close>, whatever follows it. When
  the scan skips, a hook call with a non-null \<^verbatim>\<open>argv\<close> falls back to the original
  primitive with the caller's arguments. When safe mode is on, no element of the
  injected-libraries value of the environment the rewriter builds is a companion
  library.
\<close>

theorem C4_safe_mode:
  "((scan_env envp False [] 0 = None) = (\<exists>v \<in> set (safe_values envp). \<not> valid_safe_value v))
   \<and> (scan_env envp False [] 0 = Some (safe_mode, odi, n) \<longrightarrow>
        safe_mode = (\<exists>v \<in> set (safe_values envp). enabling_value v))
   \<and> (sc_argv args \<noteq> None \<and> scan_env (my_envp w (sc_envp args)) False [] 0 = None \<longrightarrow>
        falls_back old args (hook_posix_spawn_generic w old args))
   \<and> (rewrite_env envp l = Some (True, envp') \<longrightarrow>
        (\<forall>v \<in> set (dil_values envp').
           bl_dylib \<notin> set (colon_fields v) \<and> psh_dylib \<notin> set (colon_fields v)))"
proof (intro conjI impI ballI)
  show "(scan_env envp False [] 0 = None) = (\<exists>v \<in> set (safe_values envp). \<not> valid_safe_value v)"
    by (simp add: scan_env_char list_all_iff)
next
  assume "scan_env envp False [] 0 = Some (safe_mode, odi, n)"
  then show "safe_mode = (\<exists>v \<in> set (safe_values envp). enabling_value v)"
    by (simp add: scan_env_char list_ex_iff split: if_splits)
next
  assume "sc_argv args \<noteq> None \<and> scan_env (my_envp w (sc_envp args)) False [] 0 = None"
  then show "falls_back old args (hook_posix_spawn_generic w old args)"
    using hook_scan_skip by blast
next
  fix v
  assume "rewrite_env envp l = Some (True, envp')" and "v \<in> set (dil_values envp')"
  then show "bl_dylib \<notin> set (colon_fields v)" and "psh_dylib \<notin> set (colon_fields v)"
    using rewrite_env_safe_clean by blast+
qed

theorem C4_safe_mode_witness:
  "scan_env [''_SubstituteSafeMode=YES'', ''_MSSafeMode=NO''] False [] 0 = Some (True, [], 2)
   \<and> True = (\<exists>v \<in> set (safe_values [''_SubstituteSafeMode=YES'', ''_MSSafeMode=NO'']).
               enabling_value v)
   \<and> scan_env [''_MSSafeMode=maybe''] False [] 0 = None
   \<and> (\<exists>v \<in> set (safe_values [''_MSSafeMode=maybe'']). \<not> valid_safe_value v)
   \<and> falls_back (\<lambda>c. (0, 9)) (example_args\<lparr>sc_envp := Some [''_MSSafeMode=maybe'']\<rparr>)
        (hook_posix_spawn_generic example_world (\<lambda>c. (0, 9))
           (example_args\<lparr>sc_envp := Some [''_MSSafeMode=maybe'']\<rparr>))
   \<and> rewrite_env [''DYLD_INSERT_LIBRARIES=/x.dylib:/Library/Substitute/Helpers/bundle-loader.dylib'',
                  ''_MSSafeMode=1''] bl_dylib =
       Some (True, [''_MSSafeMode=1'', ''DYLD_INSERT_LIBRARIES=/x.dylib''])
   \<and> bl_dylib \<notin> set (colon_fields ''/x.dylib'')"
proof -
  let ?args = "example_args\<lparr>sc_envp := Some [''_MSSafeMode=maybe'']\<rparr>"
  have h: "scan_env [''_SubstituteSafeMode=YES'', ''_MSSafeMode=NO''] False [] 0 = Some (True, [], 2)"
    by code_simp
  have h2: "scan_env [''_MSSafeMode=maybe''] False [] 0 = None"
    by code_simp
  have h3: "sc_argv ?args \<noteq> None \<and>
            scan_env (my_envp example_world (sc_envp ?args)) False [] 0 = None"
    by code_simp
  have h4: "rewrite_env [''DYLD_INSERT_LIBRARIES=/x.dylib:/Library/Substitute/Helpers/bundle-loader.dylib'',
                  ''_MSSafeMode=1''] bl_dylib =
       Some (True, [''_MSSafeMode=1'', ''DYLD_INSERT_LIBRARIES=/x.dylib''])"
    by code_simp
  have h5: "''/x.dylib'' \<in> set (dil_values [''_MSSafeMode=1'', ''DYLD_INSERT_LIBRARIES=/x.dylib''])"
    by code_simp
  from C4_safe_mode [of "[''_SubstituteSafeMode=YES'', ''_MSSafeMode=NO'']" True "[]" 2]
    C4_safe_mode [of "[''_MSSafeMode=maybe'']" _ _ _ ?args example_world "\<lambda>c. (0, 9)"] 
    C4_safe_mode [of "[''DYLD_INSERT_LIBRARIES=/x.dylib:/Library/Substitute/Helpers/bundle-loader.dylib'',
                  ''_MSSafeMode=1'']" _ _ _ _ _ _ bl_dylib
                  "[''_MSSafeMode=1'', ''DYLD_INSERT_LIBRARIES=/x.dylib'']"]
    h h2 h3 h4 h5
  show ?thesis by blast
qed


section \<open>The hook\<close>

text \<open>The failures the code does check: reading the flags, and copying or initializing the attributes.\<close>

lemma checked_failures_fall_back:
  assumes "sc_argv args \<noteq> None"
    and "(sc_attrp args \<noteq> None \<and> \<not> getflags_ok w) \<or>
         clone_attr w (sc_attrp args) = None"
  shows "falls_back old args (hook_posix_spawn_generic w old args)"
proof -
  from assms(1) obtain av where av: "sc_argv args = Some av" by auto
  show ?thesis
    using assms(2) dylib_to_add_Some [of w "sc_path args" av]
    by (cases "dylib_to_add w (sc_path args) (Some av)")
       (auto simp: hook_posix_spawn_generic_def av Let_def skip_falls_back crap_falls_back)
qed

subsection \<open>Claim C1\<close>

text \<open>
  C1: when any allocation or attribute step of the injected path fails, the hook falls
  back to the original primitive with the caller's arguments. The code checks the
  attribute steps and the allocation of \<^verbatim>\<open>my_attr\<close> (each a \<^verbatim>\<open>goto crap\<close>), but neither
  the \<^verbatim>\<open>malloc\<close> of \<^verbatim>\<open>new\<close> (line 266) nor that of \<^verbatim>\<open>new_envp\<close> (line 304): the next
  statement writes through the pointer. Evaluated on a spawn where one of these two
  returns null, the hook ends in a null dereference and the original primitive is never
  called.
\<close>

theorem C1_unchecked_malloc:
  "hook_posix_spawn_generic (example_world\<lparr>new_malloc_ok := False\<rparr>) (\<lambda>c. (0, 1234))
     example_args = (Crashed, [Acquire MyAttr])
   \<and> hook_posix_spawn_generic (example_world\<lparr>new_envp_malloc_ok := False\<rparr>) (\<lambda>c. (0, 1234))
     example_args = (Crashed, [Acquire MyAttr, Acquire NewStr])"
  by code_simp

subsection \<open>Claim C6\<close>

text \<open>
  C6: in launchd the policy injects only into \<^verbatim>\<open>/usr/libexec/xpcproxy\<close>, and then
  \<^verbatim>\<open>posixspawn-hook.dylib\<close>; in any other process it selects \<^verbatim>\<open>bundle-loader.dylib\<close>
  unless the path is that of substituted or \<^verbatim>\<open>/usr/sbin/notifyd\<close>, the base name of
  \<^verbatim>\<open>argv[0]\<close> is \<^verbatim>\<open>sshd\<close>, or the selected library cannot be read. Whenever the policy
  skips, the hook calls the original primitive once, with the caller's arguments, and
  ends as that call does.
\<close>

theorem C6_injection_policy:
  "(is_launchd w \<longrightarrow>
      dylib_to_add w p argv =
        (if p = ''/usr/libexec/xpcproxy'' \<and> access_ok w psh_dylib
         then Inject psh_dylib else PolicySkip))
   \<and> (\<not> is_launchd w \<longrightarrow>
      dylib_to_add w p (Some av) =
        (if p = ''/Library/Substitute/Helpers/substituted'' \<or> p = ''/usr/sbin/notifyd'' \<or>
            xbasename (case av of [] \<Rightarrow> [] | a0 # _ \<Rightarrow> a0) = ''sshd'' \<or>
            \<not> access_ok w bl_dylib
         then PolicySkip else Inject bl_dylib))
   \<and> (sc_argv args \<noteq> None \<and> dylib_to_add w (sc_path args) (sc_argv args) = PolicySkip \<longrightarrow>
      hook_posix_spawn_generic w old args =
        (if replaced args (fst (old args)) then ProcessReplaced else Return (fst (old args)),
         [CallOld args]))"
proof (intro conjI impI)
  assume "is_launchd w"
  then show "dylib_to_add w p argv =
        (if p = ''/usr/libexec/xpcproxy'' \<and> access_ok w psh_dylib
         then Inject psh_dylib else PolicySkip)"
    by (simp add: dylib_to_add_def)
next
  assume "\<not> is_launchd w"
  then show "dylib_to_add w p (Some av) =
        (if p = ''/Library/Substitute/Helpers/substituted'' \<or> p = ''/usr/sbin/notifyd'' \<or>
            xbasename (case av of [] \<Rightarrow> [] | a0 # _ \<Rightarrow> a0) = ''sshd'' \<or>
            \<not> access_ok w bl_dylib
         then PolicySkip else Inject bl_dylib)"
    by (simp add: dylib_to_add_def)
next
  assume "sc_argv args \<noteq> None \<and> dylib_to_add w (sc_path args) (sc_argv args) = PolicySkip"
  then show "hook_posix_spawn_generic w old args =
        (if replaced args (fst (old args)) then ProcessReplaced else Return (fst (old args)),
         [CallOld args])"
    by (simp add: hook_policy_skip skip_nothing)
qed

theorem C6_injection_policy_witness:
  "is_launchd (example_world\<lparr>is_launchd := True\<rparr>)
   \<and> dylib_to_add (example_world\<lparr>is_launchd := True\<rparr>) ''/usr/libexec/xpcproxy'' None =
       Inject psh_dylib
   \<and> \<not> is_launchd example_world
   \<and> dylib_to_add example_world ''/usr/libexec/xpcproxy'' (Some [''xpcproxy'']) = Inject bl_dylib
   \<and> dylib_to_add example_world ''/usr/bin/wrapper'' (Some [''/usr/sbin/sshd'', ''-i'']) = PolicySkip
   \<and> hook_posix_spawn_generic example_world (\<lambda>c. (0, 9))
        (example_args\<lparr>sc_path := ''/usr/sbin/notifyd''\<rparr>) =
       (Return 0, [CallOld (example_args\<lparr>sc_path := ''/usr/sbin/notifyd''\<rparr>)])"
proof -
  let ?wl = "example_world\<lparr>is_launchd := True\<rparr>"
  let ?args = "example_args\<lparr>sc_path := ''/usr/sbin/notifyd''\<rparr>"
  have l: "is_launchd ?wl" by (simp add: example_world_def)
  have n: "\<not> is_launchd example_world" by (simp add: example_world_def)
  have a: "access_ok ?wl psh_dylib" "access_ok example_world bl_dylib"
    by (simp_all add: example_world_def)
  have s: "sc_argv ?args \<noteq> None \<and>
           dylib_to_add example_world (sc_path ?args) (sc_argv ?args) = PolicySkip"
    by code_simp
  have b: "xbasename ''xpcproxy'' \<noteq> ''sshd''" "xbasename ''/usr/sbin/sshd'' = ''sshd''"
    by code_simp+
  have r: "\<not> replaced ?args 0" by code_simp
  from C6_injection_policy [of ?wl "''/usr/libexec/xpcproxy''" None]
    C6_injection_policy [of example_world "''/usr/libexec/xpcproxy''" _ "[''xpcproxy'']"]
    C6_injection_policy [of example_world "''/usr/bin/wrapper''" _ "[''/usr/sbin/sshd'', ''-i'']"]
    C6_injection_policy [of example_world _ _ _ ?args "\<lambda>c. (0, 9)"]
    l n a s b r
  show ?thesis by simp
qed

subsection \<open>Claim C10\<close>

text \<open>
  C10: when \<^verbatim>\<open>argv\<close> is not null but \<^verbatim>\<open>argv[0]\<close> is, the policy still decides: the
  empty string stands in for \<^verbatim>\<open>argv[0]\<close>, no null pointer is dereferenced, and the
  \<^verbatim>\<open>sshd\<close> exclusion does not match, so the decision rests on the path and the
  library alone.
\<close>

theorem C10_null_argv0:
  "dylib_to_add w p (Some []) =
     (if is_launchd w
      then (if p = ''/usr/libexec/xpcproxy'' \<and> access_ok w psh_dylib
            then Inject psh_dylib else PolicySkip)
      else if p = ''/Library/Substitute/Helpers/substituted'' \<or> p = ''/usr/sbin/notifyd''
        then PolicySkip
      else if access_ok w bl_dylib then Inject bl_dylib else PolicySkip)
   \<and> dylib_to_add w p (Some []) \<noteq> PolicyFault
   \<and> xbasename (case [] of [] \<Rightarrow> [] | a0 # _ \<Rightarrow> a0) \<noteq> ''sshd''"
  by (simp add: dylib_to_add_def xbasename_def)

theorem C10_null_argv0_witness:
  "dylib_to_add example_world ''/bin/restricted'' (Some []) = Inject bl_dylib
   \<and> dylib_to_add example_world ''/bin/restricted'' (Some []) \<noteq> PolicyFault"
proof -
  have "\<not> is_launchd example_world" "access_ok example_world bl_dylib"
    by (simp_all add: example_world_def)
  with C10_null_argv0 [of example_world "''/bin/restricted''"] show ?thesis by simp
qed

section \<open>The sandbox override\<close>

subsection \<open>Claim C8\<close>

text \<open>
  C8: where the first variable argument of a \<^verbatim>\<open>mach-lookup\<close> check points to the
  service name, the override returns 0 without calling the original checker exactly
  when the operation is \<^verbatim>\<open>mach-lookup\<close> and the name is \<^verbatim>\<open>com.ex.substituted\<close>;
  otherwise it calls the original checker once, with the same pid, operation and type
  and the five slots it read, and returns that result.
\<close>

theorem C8_sandbox_override:
  assumes "op = ''mach-lookup'' \<longrightarrow> cstr_at (fst blah) = Some name"
  shows "hook_sandbox_check cstr_at old_sandbox_check pid op type blah =
           (if op = ''mach-lookup'' \<and> name = ''com.ex.substituted''
            then (SandboxReturn 0, [])
            else (SandboxReturn
                    (old_sandbox_check \<lparr>sb_pid = pid, sb_op = op, sb_type = type, sb_blah = blah\<rparr>),
                  [\<lparr>sb_pid = pid, sb_op = op, sb_type = type, sb_blah = blah\<rparr>]))"
  using assms by (simp add: hook_sandbox_check_def Let_def)

theorem C8_sandbox_override_witness:
  "hook_sandbox_check (\<lambda>a. if a = 4096 then Some ''com.ex.substituted'' else None) (\<lambda>c. 1)
     5 ''mach-lookup'' 2 (4096, 0, 0, 0, 0) = (SandboxReturn 0, [])
   \<and> hook_sandbox_check (\<lambda>a. if a = 4096 then Some ''com.apple.other'' else None) (\<lambda>c. 1)
     5 ''mach-lookup'' 2 (4096, 7, 0, 0, 0) =
       (SandboxReturn 1,
        [\<lparr>sb_pid = 5, sb_op = ''mach-lookup'', sb_type = 2, sb_blah = (4096, 7, 0, 0, 0)\<rparr>])
   \<and> hook_sandbox_check (\<lambda>a. None) (\<lambda>c. 1) 5 ''file-read-data'' 0 (0, 0, 0, 0, 0) =
       (SandboxReturn 1,
        [\<lparr>sb_pid = 5, sb_op = ''file-read-data'', sb_type = 0, sb_blah = (0, 0, 0, 0, 0)\<rparr>])"
  using C8_sandbox_override [where op = "''mach-lookup''" and blah = "(4096, 0, 0, 0, 0)"
      and cstr_at = "\<lambda>a. if a = 4096 then Some ''com.ex.substituted'' else None"
      and name = "''com.ex.substituted''" and old_sandbox_check = "\<lambda>c. 1" and pid = 5
      and type = 2]
    C8_sandbox_override [where op = "''mach-lookup''" and blah = "(4096, 7, 0, 0, 0)"
      and cstr_at = "\<lambda>a. if a = 4096 then Some ''com.apple.other'' else None"
      and name = "''com.apple.other''" and old_sandbox_check = "\<lambda>c. 1" and pid = 5
      and type = 2]
    C8_sandbox_override [where op = "''file-read-data''" and blah = "(0, 0, 0, 0, 0)"
      and cstr_at = "\<lambda>a. None" and name = "[]" and old_sandbox_check = "\<lambda>c. 1" and pid = 5
      and type = 0]
  by simp


section \<open>The inspector\<close>

lemma memmem_sublist: "memmem hay needle = sublist needle hay"
proof (induction hay)
  case Nil
  show ?case by auto
next
  case (Cons h hs)
  have "take (length needle) (h # hs) = needle \<longleftrightarrow> prefix needle (h # hs)"
    by (metis append_eq_conv_conj prefix_def)
  then show ?case
    using Cons by (cases needle) (simp_all add: sublist_Cons_right)
qed

lemma u32_at_take: "off + 3 < n \<Longrightarrow> u32_at (take n f) off = u32_at f off"
  by (simp add: u32_at_def)

lemma pread_short: "0 < n \<Longrightarrow> length (pread f n off) \<noteq> n \<longleftrightarrow> length f < off + n"
  by (auto simp: pread_def)

lemma not_memmem_Nil: "\<not> memmem [] sectname"
  by (simp add: sectname_def)

lemma read_header_char:
  "read_header f =
     (if length f < 28 then None
      else if is_fat f \<and> u32_at f 4 = 0 then None
      else if length f < slice_start f + 28 then None
      else Some (take 28 (drop (slice_start f) f),
                 if is_fat f then ntohl (u32_at f 16) else 0))"
proof (cases "length f < 28")
  case True
  then show ?thesis
    by (simp add: read_header_def pread_def sizeof_u_def Let_def)
next
  case long: False
  have fields: "u32_at (take 28 f) 0 = u32_at f 0" "u32_at (take 28 f) 4 = u32_at f 4"
    "u32_at (take 28 f) 16 = u32_at f 16"
    by (simp_all add: u32_at_take)
  have rh: "read_header f =
      (if ntohl (u32_at f 0) = FAT_MAGIC then
         (if u32_at f 4 = 0 then None
          else if length (take 28 (drop (unat (ntohl (u32_at f 16))) f)) \<noteq> 28 then None
          else Some (take 28 (drop (unat (ntohl (u32_at f 16))) f), ntohl (u32_at f 16)))
       else Some (take 28 f, 0))"
    using long by (simp add: read_header_def pread_def sizeof_u_def Let_def fields)
  show ?thesis
  proof (cases "is_fat f")
    case False
    then have "ntohl (u32_at f 0) \<noteq> FAT_MAGIC" by (simp add: is_fat_def)
    with long False show ?thesis
      by (simp add: rh slice_start_def)
  next
    case True
    then have fat: "ntohl (u32_at f 0) = FAT_MAGIC" by (simp add: is_fat_def)
    have st: "unat (ntohl (u32_at f 16)) = slice_start f"
      using True long by (simp add: slice_start_def)
    have sh: "length (take 28 (drop (slice_start f) f)) \<noteq> 28 \<longleftrightarrow>
              length f < slice_start f + 28"
      by auto
    show ?thesis
      unfolding rh st using long True fat sh by (simp del: length_take)
  qed
qed

lemma scan_cmds_char:
  assumes "unat offset + 32 < 2 ^ 32" and "cmds_malloc_ok w"
  shows "fst (scan_cmds w f u offset) =
           (case classify_magic (u32_at u 0) of
              None \<Rightarrow> False
            | Some (swap, is64) \<Rightarrow>
                let n = unat (if swap then OSSwapInt32 (u32_at u 20) else u32_at u 20);
                    first = unat offset + (if is64 then 32 else 28)
                in if length f < first + n then False
                   else sublist sectname (take n (drop first f)))"
proof (cases "classify_magic (u32_at u 0)")
  case None
  then show ?thesis by (simp add: scan_cmds_def)
next
  case (Some si)
  obtain swap is64 where si: "si = (swap, is64)" by (cases si)
  define n where "n = unat (if swap then OSSwapInt32 (u32_at u 20) else u32_at u 20)"
  define hs :: "32 word" where "hs = (if is64 then 32 else 28)"
  define first where "first = unat offset + (if is64 then 32 else 28)"
  have "unat offset + unat hs < 2 ^ 32"
    using assms(1) by (simp add: hs_def)
  then have "unat (offset + hs) = unat offset + unat hs"
    by (simp add: unat_add_lem [THEN iffD1])
  then have ua: "unat (offset + hs) = first"
    by (simp add: first_def hs_def)
  have sc: "scan_cmds w f u offset =
      (if length (pread f n first) \<noteq> n then (False, [Acquire CmdsBuf, Release CmdsBuf])
       else (memmem (pread f n first) sectname, [Acquire CmdsBuf, Release CmdsBuf]))"
    using assms(2) by (simp add: scan_cmds_def Some si Let_def n_def [symmetric]
        hs_def [symmetric] ua)
  have "fst (scan_cmds w f u offset) =
      (if length f < first + n then False else sublist sectname (take n (drop first f)))"
  proof (cases "n = 0")
    case True
    then show ?thesis
      by (simp add: sc pread_def not_memmem_Nil) (simp add: sectname_def)
  next
    case False
    then have "0 < n" by simp
    from pread_short [OF this, of f first] show ?thesis
      by (simp add: sc memmem_sublist) (simp add: pread_def)
  qed
  then show ?thesis
    by (simp add: Some si Let_def n_def first_def)
qed

lemma inspect_file_char:
  assumes "slice_start f + 32 < 2 ^ 32" and "cmds_malloc_ok w"
  shows "fst (inspect_file w f) =
           (case load_commands f of None \<Rightarrow> False | Some cmds \<Rightarrow> sublist sectname cmds)"
proof (cases "length f < 28 \<or> (is_fat f \<and> u32_at f 4 = 0) \<or> length f < slice_start f + 28")
  case True
  then show ?thesis
    by (auto simp: inspect_file_def read_header_char load_commands_def)
next
  case False
  let ?hdr = "drop (slice_start f) f"
  let ?u = "take 28 ?hdr"
  let ?off = "if is_fat f then ntohl (u32_at f 16) else 0"
  from False have rh: "read_header f = Some (?u, ?off)"
    by (simp add: read_header_char)
  have m: "u32_at ?u 0 = u32_at ?hdr 0" and sz: "u32_at ?u 20 = u32_at ?hdr 20"
    by (simp_all add: u32_at_take)
  have off: "unat ?off = slice_start f" using False by (simp add: slice_start_def)
  have "fst (inspect_file w f) = fst (scan_cmds w f ?u ?off)"
    by (simp add: inspect_file_def rh)
  also have "\<dots> = (case classify_magic (u32_at ?hdr 0) of
              None \<Rightarrow> False
            | Some (swap, is64) \<Rightarrow>
                let n = unat (if swap then OSSwapInt32 (u32_at ?hdr 20) else u32_at ?hdr 20);
                    first = slice_start f + (if is64 then 32 else 28)
                in if length f < first + n then False
                   else sublist sectname (take n (drop first f)))"
  proof -
    have "unat ?off + 32 < 2 ^ 32" using assms(1) by (simp only: off)
    from scan_cmds_char [OF this assms(2), of f ?u] show ?thesis
      by (simp only: m sz off)
  qed
  also have "\<dots> = (case load_commands f of None \<Rightarrow> False | Some cmds \<Rightarrow> sublist sectname cmds)"
  proof -
    from False have lc: "load_commands f =
        (case classify_magic (u32_at ?hdr 0) of
              None \<Rightarrow> None
            | Some (swap, is64) \<Rightarrow>
                let n = unat (if swap then OSSwapInt32 (u32_at ?hdr 20) else u32_at ?hdr 20);
                    first = slice_start f + (if is64 then 32 else 28)
                in if length f < first + n then None
                   else Some (take n (drop first f)))"
      by (auto simp: load_commands_def Let_def)
    show ?thesis
      unfolding lc by (cases "classify_magic (u32_at ?hdr 0)") (simp_all add: Let_def split: prod.splits)
  qed
  finally show ?thesis .
qed

lemma looks_restricted_inspect:
  "files w path = Some f \<Longrightarrow> fst (looks_restricted w path) = fst (inspect_file w f)"
  by (simp add: looks_restricted_def split: prod.splits)

lemma scan_cmds_no_malloc: "\<not> cmds_malloc_ok w \<Longrightarrow> \<not> fst (scan_cmds w f u offset)"
  by (simp add: scan_cmds_def Let_def split: option.splits prod.splits)

lemma looks_restricted_no_malloc:
  assumes "\<not> cmds_malloc_ok w"
  shows "\<not> fst (looks_restricted w path)"
proof (cases "files w path")
  case None
  then show ?thesis by (simp add: looks_restricted_def)
next
  case (Some f)
  have "\<not> fst (inspect_file w f)"
  proof (cases "read_header f")
    case None
    then show ?thesis by (simp add: inspect_file_def)
  next
    case (Some uo)
    then show ?thesis
      using scan_cmds_no_malloc [OF assms] by (cases uo) (simp add: inspect_file_def)
  qed
  with Some show ?thesis by (simp add: looks_restricted_inspect)
qed

subsection \<open>Claim C5\<close>

text \<open>
  C5, as stated: the inspector answers true exactly when the load commands contain
  the byte pattern of the section name \<^verbatim>\<open>__restrict\<close>. The code searches for
  \<^verbatim>\<open>sizeof(sectname)\<close> bytes (line 144), the ten characters and the terminating NUL,
  so load commands that hold the characters followed by anything else, as in a section
  named \<^verbatim>\<open>__restricted\<close>, are not flagged.
\<close>

theorem C5_marker_pattern_counterexample:
  "\<not> fst (looks_restricted (example_world\<lparr>files := (\<lambda>p. Some renamed_macho)\<rparr>) ''/bin/renamed'')
   \<and> claimed_restricted renamed_macho"
  by code_simp

text \<open>
  C5, amended: the inspector never fails its caller, and answers false when the file
  does not open. For a file that opens, when the buffer for the load commands is
  allocated and the header of the inspected slice ends below offset \<open>2 ^ 32\<close> (so that
  the 32-bit \<open>offset\<close> does not wrap), it answers true exactly when the load-command
  bytes following the Mach-O header (of the first architecture, at its big-endian
  offset, in a fat file) contain the eleven bytes of \<^verbatim>\<open>__restrict\<close> with its terminating
  NUL; in particular it answers false for a truncated header, a fat header with zero
  architectures, an unrecognized magic and truncated load commands. When that buffer
  cannot be allocated it answers false.
\<close>

theorem C5_looks_restricted:
  "(files w path = None \<longrightarrow> \<not> fst (looks_restricted w path))
   \<and> (files w path = Some f \<and> cmds_malloc_ok w \<and> slice_start f + 32 < 2 ^ 32 \<longrightarrow>
        fst (looks_restricted w path) =
          (case load_commands f of None \<Rightarrow> False | Some cmds \<Rightarrow> sublist sectname cmds))
   \<and> (\<not> cmds_malloc_ok w \<longrightarrow> \<not> fst (looks_restricted w path))"
proof (intro conjI impI)
  assume "files w path = None"
  then show "\<not> fst (looks_restricted w path)"
    by (simp add: looks_restricted_def)
next
  assume a: "files w path = Some f \<and> cmds_malloc_ok w \<and> slice_start f + 32 < 2 ^ 32"
  then have "fst (looks_restricted w path) = fst (inspect_file w f)"
    by (simp add: looks_restricted_inspect)
  also have "\<dots> = (case load_commands f of None \<Rightarrow> False | Some cmds \<Rightarrow> sublist sectname cmds)"
    using a by (intro inspect_file_char) simp_all
  finally show "fst (looks_restricted w path) =
          (case load_commands f of None \<Rightarrow> False | Some cmds \<Rightarrow> sublist sectname cmds)" .
next
  assume "\<not> cmds_malloc_ok w"
  then show "\<not> fst (looks_restricted w path)"
    by (rule looks_restricted_no_malloc)
qed

theorem C5_looks_restricted_witness:
  "fst (looks_restricted example_world ''/bin/restricted'')
   \<and> load_commands restricted_macho = Some sectname
   \<and> fst (looks_restricted (example_world\<lparr>files := (\<lambda>p. Some fat_macho)\<rparr>) ''/bin/fat'')
   \<and> load_commands fat_macho = Some sectname
   \<and> \<not> fst (looks_restricted example_world ''/bin/missing'')
   \<and> \<not> fst (looks_restricted (example_world\<lparr>files := (\<lambda>p. Some [0xce, 0xfa])\<rparr>) ''/bin/cut'')
   \<and> load_commands [0xce, 0xfa] = None
   \<and> \<not> fst (looks_restricted (example_world\<lparr>cmds_malloc_ok := False\<rparr>) ''/bin/restricted'')"
proof -
  let ?wt = "example_world\<lparr>files := (\<lambda>p. Some [0xce, 0xfa])\<rparr>"
  have t0: "files ?wt ''/bin/cut'' = Some [0xce, 0xfa] \<and> cmds_malloc_ok ?wt \<and>
            slice_start [0xce, 0xfa] = 0"
    by code_simp
  then have t: "files ?wt ''/bin/cut'' = Some [0xce, 0xfa] \<and> cmds_malloc_ok ?wt \<and>
            slice_start [0xce, 0xfa] + 32 < 2 ^ 32"
    by simp
  have lt: "load_commands [0xce, 0xfa] = None" by code_simp
  let ?wf = "example_world\<lparr>files := (\<lambda>p. Some fat_macho)\<rparr>"
  let ?wm = "example_world\<lparr>cmds_malloc_ok := False\<rparr>"
  have a0: "files example_world ''/bin/restricted'' = Some restricted_macho \<and>
            cmds_malloc_ok example_world \<and> slice_start restricted_macho = 0"
    by code_simp
  then have a: "files example_world ''/bin/restricted'' = Some restricted_macho \<and>
           cmds_malloc_ok example_world \<and> slice_start restricted_macho + 32 < 2 ^ 32"
    by simp
  have b0: "files ?wf ''/bin/fat'' = Some fat_macho \<and> cmds_malloc_ok ?wf \<and>
            slice_start fat_macho = 28"
    by code_simp
  then have b: "files ?wf ''/bin/fat'' = Some fat_macho \<and> cmds_malloc_ok ?wf \<and>
           slice_start fat_macho + 32 < 2 ^ 32"
    by simp
  have c: "files example_world ''/bin/missing'' = None" by code_simp
  have d: "\<not> cmds_malloc_ok ?wm" by code_simp
  have l: "load_commands restricted_macho = Some sectname"
    "load_commands fat_macho = Some sectname"
    by code_simp+
  from C5_looks_restricted [of example_world "''/bin/restricted''" restricted_macho]
    C5_looks_restricted [of ?wf "''/bin/fat''" fat_macho]
    C5_looks_restricted [of example_world "''/bin/missing''"]
    C5_looks_restricted [of ?wm "''/bin/restricted''"]
    C5_looks_restricted [of ?wt "''/bin/cut''" "[0xce, 0xfa]"]
    a b c d l t lt
  show ?thesis by simp
qed


section \<open>Resources and steps of a hook call\<close>

lemma held_append: "held (tr @ tr') = foldl held_step (held tr) tr'"
  by (simp add: held_def)

lemma scan_cmds_events:
  "snd (scan_cmds w f u offset) = [] \<or>
   snd (scan_cmds w f u offset) = [Acquire CmdsBuf, Release CmdsBuf]"
  by (simp add: scan_cmds_def Let_def split: option.splits prod.splits)

lemma inspect_file_events:
  "snd (inspect_file w f) = [] \<or> snd (inspect_file w f) = [Acquire CmdsBuf, Release CmdsBuf]"
  using scan_cmds_events by (simp add: inspect_file_def split: option.splits prod.splits)

lemma looks_restricted_events:
  "snd (looks_restricted w p) \<in>
     {[], [Acquire InspectorFd, Release InspectorFd],
      [Acquire InspectorFd, Acquire CmdsBuf, Release CmdsBuf, Release InspectorFd]}"
proof (cases "files w p")
  case None
  then show ?thesis by (simp add: looks_restricted_def)
next
  case (Some f)
  with inspect_file_events [of w f] show ?thesis
    by (auto simp: looks_restricted_def split: prod.splits)
qed

lemma held_inspect: "foldl held_step h (snd (looks_restricted w p)) = h"
  using looks_restricted_events [of w p] by auto

lemma marker_inspect: "Acquire MarkerFd \<notin> set (snd (looks_restricted w p))"
  using looks_restricted_events [of w p] by auto

lemma old_calls_inspect: "old_calls (snd (looks_restricted w p)) = []"
  using looks_restricted_events [of w p] by auto

lemma spawn_unrestrict_events:
  "snd (spawn_unrestrict w pid r e) =
     CallOldPosixSpawn (unrestrict_call pid r e) #
       (if fst (old_posix_spawn w (unrestrict_call pid r e)) = 0
        then [WaitPid (snd (old_posix_spawn w (unrestrict_call pid r e)))] else [])"
  and spawn_unrestrict_started:
  "fst (spawn_unrestrict w pid r e) = (fst (old_posix_spawn w (unrestrict_call pid r e)) = 0)"
  by (simp_all add: spawn_unrestrict_def Let_def split: prod.splits)

lemma held_helper: "foldl held_step h (snd (spawn_unrestrict w pid r e)) = h"
  by (simp add: spawn_unrestrict_events)

lemma marker_helper: "Acquire MarkerFd \<notin> set (snd (spawn_unrestrict w pid r e))"
  by (simp add: spawn_unrestrict_events)

lemma marker_cleanup: "Acquire MarkerFd \<notin> set (cleanup ne n a)"
  by (simp add: cleanup_def split: option.splits)

lemma skip_held:
  assumes "skip old args tr ne n a = (Return r, tr')"
  shows "held tr' = foldl held_step (held tr) (cleanup ne n a)"
    and "Acquire MarkerFd \<in> set tr' \<longleftrightarrow> Acquire MarkerFd \<in> set tr"
  using assms
  by (auto simp: skip_def Let_def held_append marker_cleanup split: prod.splits if_splits)

lemma call_real_held:
  assumes "call_real w old args a new ne nu ws tr = (Return r, tr')"
  shows "held tr' = foldl held_step (held tr) (cleanup (Some ne) new (Some a))"
    and "Acquire MarkerFd \<in> set tr' \<longleftrightarrow> Acquire MarkerFd \<in> set tr"
  using assms
  by (auto simp: call_real_def Let_def held_append held_helper marker_cleanup marker_helper
        split: prod.splits if_splits)

lemma cleanup_attr: "cleanup ne n (Some a) = cleanup ne n (Some b)"
  by (simp add: cleanup_def)

lemma unrestrict_held:
  assumes "unrestrict_and_spawn w old args flags a new ne tr = (Return r, tr')"
    and "Acquire MarkerFd \<notin> set tr"
  shows "held tr' =
           foldl held_step ((if Acquire MarkerFd \<in> set tr' then [MarkerFd] else []) @ held tr)
             (cleanup (Some ne) new (Some a))"
proof -
  obtain nu ev where lr: "looks_restricted w (sc_path args) = (nu, ev)"
    by (cases "looks_restricted w (sc_path args)")
  have hev: "held (tr @ ev) = held tr" and mev: "Acquire MarkerFd \<notin> set (tr @ ev)"
    using held_inspect [of "held tr" w "sc_path args"] marker_inspect [of w "sc_path args"]
      assms(2) by (simp_all add: lr held_append)
  let ?a' = "a\<lparr>attr_flags := flags OR POSIX_SPAWN_START_SUSPENDED\<rparr>"
  let ?ws = "flags AND POSIX_SPAWN_START_SUSPENDED \<noteq> 0"
  note c = cleanup_attr [of "Some ne" new ?a' a]
  from assms(1) consider
      (fallback) "skip old args (tr @ ev) (Some ne) new (Some a) = (Return r, tr')"
    | (fallback') "skip old args (tr @ ev) (Some ne) new (Some ?a') = (Return r, tr')"
    | (plain) a'' nu' ws where
        "call_real w old args a'' new ne nu' ws (tr @ ev) = (Return r, tr')"
    | (mfallback) "skip old args (tr @ ev @ [Acquire MarkerFd]) (Some ne) new (Some ?a') =
          (Return r, tr')"
    | (hfallback) "skip old args
          (tr @ ev @ [Acquire MarkerFd] @ [SetCloexec] @
             snd (spawn_unrestrict w (getpid w) (\<not> ?ws) True))
          (Some ne) new (Some ?a') = (Return r, tr')"
    | (exec) "call_real w old args ?a' new ne True ?ws
          (tr @ ev @ [Acquire MarkerFd] @ [SetCloexec] @
             snd (spawn_unrestrict w (getpid w) (\<not> ?ws) True)) = (Return r, tr')"
    by (auto simp: unrestrict_and_spawn_def lr Let_def crap_def split: if_splits prod.splits)
  then show ?thesis
  proof cases
    case fallback
    from skip_held [OF this] hev mev show ?thesis by simp
  next
    case fallback'
    from skip_held [OF this] hev mev show ?thesis by (simp add: c)
  next
    case plain
    from call_real_held [OF this] hev mev show ?thesis
      by (simp add: cleanup_attr [of "Some ne" new a'' a])
  next
    case mfallback
    from skip_held [OF this] hev show ?thesis
      by (simp add: c held_append [of "tr @ ev", symmetric] held_append)
  next
    case hfallback
    from skip_held [OF this] hev show ?thesis
      by (simp add: c held_append held_helper)
  next
    case exec
    from call_real_held [OF this] hev show ?thesis
      by (simp add: c held_append held_helper)
  qed
qed

lemma held_injected:
  "foldl held_step (pre @ held (injected_trace new)) (cleanup (Some ne) new (Some a)) = pre"
  if "NewEnvp \<notin> set pre" "NewStr \<notin> set pre" "MyAttr \<notin> set pre"
  using that
  by (cases new) (simp_all add: injected_trace_def held_def cleanup_def remove1_append)

lemma marker_injected: "Acquire MarkerFd \<notin> set (injected_trace new)"
  by (simp add: injected_trace_def)

lemma hook_cases:
  assumes "hook_posix_spawn_generic w old args = (Return r, tr)"
  obtains
    (early) "skip old args [] None None None = (Return r, tr)"
  | (scan) a where "skip old args [Acquire MyAttr] None None (Some a) = (Return r, tr)"
  | (safe) a new ne where
      "skip old args (injected_trace new) (Some ne) new (Some a) = (Return r, tr)"
  | (inject) flags a new ne where
      "unrestrict_and_spawn w old args flags a new ne (injected_trace new) = (Return r, tr)"
  using assms
  by (auto simp: hook_posix_spawn_generic_def Let_def crap_def injected_trace_def
        split: if_splits policy.splits option.splits prod.splits)

lemma steps_append: "steps (tr @ tr') = steps tr @ steps tr'"
  by (simp add: steps_def)

lemma steps_injected: "steps (injected_trace new) = []"
  by (simp add: steps_def injected_trace_def)

lemma steps_inspect: "steps (snd (looks_restricted w p)) = []"
  using looks_restricted_events [of w p] by (auto simp: steps_def)

lemma steps_cleanup: "steps (cleanup ne n a) = []"
  by (simp add: steps_def cleanup_def split: option.splits)

lemma steps_helper:
  "steps (snd (spawn_unrestrict w pid r e)) = snd (spawn_unrestrict w pid r e)"
  by (simp add: steps_def spawn_unrestrict_events)

lemma steps_Nil: "steps [] = []"
  by (simp add: steps_def)

lemma steps_Cons: "steps (e # tr) = (if is_step e then e # steps tr else steps tr)"
  by (simp add: steps_def)

lemma skip_steps:
  "steps (snd (skip old args tr ne n a)) = steps tr @ [CallOld args]"
  "fst (skip old args tr ne n a) =
     (if replaced args (fst (old args)) then ProcessReplaced else Return (fst (old args)))"
  by (simp_all add: skip_def Let_def steps_append steps_cleanup steps_Nil steps_Cons
        split: prod.splits)

lemma hook_inject:
  assumes "sc_argv args = Some av"
    and "sc_attrp args \<noteq> None \<longrightarrow> getflags_ok w"
    and "dylib_to_add w (sc_path args) (Some av) = Inject dylib"
    and "clone_attr w (sc_attrp args) = Some my_attr"
    and "rewrite_env (my_envp w (sc_envp args)) dylib = Some (False, new_envp)"
    and "new_malloc_ok w" and "new_envp_malloc_ok w"
  shows "\<exists>new. hook_posix_spawn_generic w old args =
           unrestrict_and_spawn w old args
             (case sc_attrp args of Some a \<Rightarrow> attr_flags a | None \<Rightarrow> 0)
             my_attr new new_envp (injected_trace new)"
proof -
  from assms(5) obtain odi n where
    sc: "scan_env (my_envp w (sc_envp args)) False [] 0 = Some (False, odi, n)"
    and ne: "new_envp = build_envp (my_envp w (sc_envp args)) n
               (rebuild_dyld_insert False odi dylib)"
    by (auto simp: rewrite_env_def split: option.splits)
  show ?thesis
    using assms(1-4,6,7)
    by (intro exI [of _ "rebuild_dyld_insert False odi dylib"])
       (auto simp: hook_posix_spawn_generic_def Let_def sc ne injected_trace_def)
qed

lemma call_real_steps:
  assumes "sc_pidp args \<noteq> NullPid"
  shows "steps (snd (call_real w old args a new ne True ws tr)) =
           steps tr @
           CallOld (args\<lparr>sc_attrp := Some a, sc_envp := Some ne\<rparr>) #
           (if fst (old (args\<lparr>sc_attrp := Some a, sc_envp := Some ne\<rparr>)) \<noteq> 0 \<or>
               attr_flags a AND POSIX_SPAWN_SETEXEC \<noteq> 0 then []
            else snd (spawn_unrestrict w
                        (snd (old (args\<lparr>sc_attrp := Some a, sc_envp := Some ne\<rparr>)))
                        (\<not> ws) False))"
    and "fst (call_real w old args a new ne True ws tr) =
           ended_as old (args\<lparr>sc_attrp := Some a, sc_envp := Some ne\<rparr>)"
  using assms
  by (auto simp: call_real_def Let_def steps_append steps_cleanup steps_Nil steps_Cons
        steps_helper ended_as_def replaced_def split: prod.splits)


lemma spawn_unrestrict_eq:
  "spawn_unrestrict w pid r e =
     (fst (old_posix_spawn w (unrestrict_call pid r e)) = 0,
      CallOldPosixSpawn (unrestrict_call pid r e) #
        (if fst (old_posix_spawn w (unrestrict_call pid r e)) = 0
         then [WaitPid (snd (old_posix_spawn w (unrestrict_call pid r e)))] else []))"
  by (simp add: spawn_unrestrict_def Let_def split: prod.splits)

lemma unrestrict_steps:
  assumes "fst (looks_restricted w (sc_path args))" and "sc_pidp args \<noteq> NullPid"
  shows "steps (snd (unrestrict_and_spawn w old args flags a new ne tr)) =
           steps tr @
           (let resume = (flags AND POSIX_SPAWN_START_SUSPENDED = 0);
                call' = args\<lparr>sc_attrp := Some (a\<lparr>attr_flags := flags OR POSIX_SPAWN_START_SUSPENDED\<rparr>),
                             sc_envp := Some ne\<rparr>;
                before = unrestrict_call (getpid w) resume True;
                after = unrestrict_call (snd (old call')) resume False
            in if \<not> setflags_ok w then [CallOld args]
               else if flags AND POSIX_SPAWN_SETEXEC \<noteq> 0 then
                 (if \<not> dup2_ok w then [CallOld args]
                  else if \<not> fcntl_ok w then [Acquire MarkerFd, CallOld args]
                  else if fst (old_posix_spawn w before) \<noteq> 0
                    then [Acquire MarkerFd, SetCloexec, CallOldPosixSpawn before, CallOld args]
                  else [Acquire MarkerFd, SetCloexec, CallOldPosixSpawn before,
                        WaitPid (snd (old_posix_spawn w before)), CallOld call'])
               else if fst (old call') \<noteq> 0 then [CallOld call']
               else if fst (old_posix_spawn w after) \<noteq> 0
                 then [CallOld call', CallOldPosixSpawn after]
               else [CallOld call', CallOldPosixSpawn after,
                     WaitPid (snd (old_posix_spawn w after))])"
proof -
  obtain ev where lr: "looks_restricted w (sc_path args) = (True, ev)"
    using assms(1) by (cases "looks_restricted w (sc_path args)") simp
  have sev: "steps ev = []"
    using steps_inspect [of w "sc_path args"] by (simp add: lr)
  have bits: "(flags OR POSIX_SPAWN_START_SUSPENDED) AND POSIX_SPAWN_SETEXEC =
              flags AND POSIX_SPAWN_SETEXEC"
  proof -
    have "(flags OR 0x80) AND 0x40 = (flags AND 0x40) OR ((0x80 :: 16 word) AND 0x40)"
      by (rule bit.conj_disj_distrib2)
    also have "(0x80 :: 16 word) AND 0x40 = 0" by simp
    finally show ?thesis
      by (simp add: POSIX_SPAWN_START_SUSPENDED_def POSIX_SPAWN_SETEXEC_def)
  qed
  show ?thesis
    using assms(2)
    by (simp add: unrestrict_and_spawn_def lr Let_def crap_def skip_steps call_real_steps
          steps_append sev steps_Nil steps_Cons spawn_unrestrict_eq bits)
qed

lemma unrestrict_outcome:
  assumes "fst (looks_restricted w (sc_path args))" and "sc_pidp args \<noteq> NullPid"
  shows "fst (unrestrict_and_spawn w old args flags a new ne tr) =
           (let resume = (flags AND POSIX_SPAWN_START_SUSPENDED = 0);
                call' = args\<lparr>sc_attrp := Some (a\<lparr>attr_flags := flags OR POSIX_SPAWN_START_SUSPENDED\<rparr>),
                             sc_envp := Some ne\<rparr>;
                before = unrestrict_call (getpid w) resume True
            in if \<not> setflags_ok w then ended_as old args
               else if flags AND POSIX_SPAWN_SETEXEC \<noteq> 0 then
                 (if \<not> dup2_ok w \<or> \<not> fcntl_ok w \<or> fst (old_posix_spawn w before) \<noteq> 0
                  then ended_as old args
                  else ended_as old call')
               else Return (fst (old call')))"
proof -
  obtain ev where lr: "looks_restricted w (sc_path args) = (True, ev)"
    using assms(1) by (cases "looks_restricted w (sc_path args)") simp
  have bits: "(flags OR POSIX_SPAWN_START_SUSPENDED) AND POSIX_SPAWN_SETEXEC =
              flags AND POSIX_SPAWN_SETEXEC"
  proof -
    have "(flags OR 0x80) AND 0x40 = (flags AND 0x40) OR ((0x80 :: 16 word) AND 0x40)"
      by (rule bit.conj_disj_distrib2)
    also have "(0x80 :: 16 word) AND 0x40 = 0" by simp
    finally show ?thesis
      by (simp add: POSIX_SPAWN_START_SUSPENDED_def POSIX_SPAWN_SETEXEC_def)
  qed
  show ?thesis
    using assms(2)
    by (simp add: unrestrict_and_spawn_def lr Let_def crap_def skip_steps call_real_steps
          spawn_unrestrict_eq bits ended_as_def [symmetric])
       (simp add: ended_as_def replaced_def bits)
qed

subsection \<open>Claim C9\<close>

text \<open>
  C9, as stated: every resource acquired during an interception call, the marker
  descriptor 255 included, is released before the call returns. The hook never closes
  descriptor 255: on a replace-exec spawn of a restricted binary whose real call fails
  (here with error 2), the hook returns with the descriptor still open.
\<close>

theorem C9_marker_counterexample:
  "hook_posix_spawn_generic example_world (\<lambda>c. (2, 0))
     (example_args\<lparr>sc_attrp := Some \<lparr>attr_flags = POSIX_SPAWN_SETEXEC, attr_other = 0\<rparr>\<rparr>) =
     (Return 2,
      [Acquire MyAttr, Acquire NewStr, Acquire NewEnvp, Acquire InspectorFd, Acquire CmdsBuf,
       Release CmdsBuf, Release InspectorFd, Acquire MarkerFd, SetCloexec,
       CallOldPosixSpawn (unrestrict_call 77 True True), WaitPid 500,
       CallOld (example_args\<lparr>
         sc_attrp := Some \<lparr>attr_flags = 0xC0, attr_other = 0\<rparr>,
         sc_envp := Some [''A=1'',
           ''DYLD_INSERT_LIBRARIES=/Library/Substitute/Helpers/bundle-loader.dylib'']\<rparr>),
       Release NewEnvp, Release NewStr, Release MyAttr])
   \<and> held (snd (hook_posix_spawn_generic example_world (\<lambda>c. (2, 0))
        (example_args\<lparr>sc_attrp := Some \<lparr>attr_flags = POSIX_SPAWN_SETEXEC, attr_other = 0\<rparr>\<rparr>))) =
     [MarkerFd]"
  by code_simp

text \<open>
  C9, amended: whenever an interception call returns, the inspector's file
  descriptor and load-commands buffer, the rewritten environment string and array and
  the cloned attributes have all been released, on the success path and on every
  fallback path. The marker descriptor 255 is the exception: the hook never releases
  it, so it is still held at the return exactly when the call installed it.
\<close>

theorem C9_resources:
  assumes "hook_posix_spawn_generic w old args = (Return r, tr)"
  shows "held tr = (if Acquire MarkerFd \<in> set tr then [MarkerFd] else [])"
  using assms
proof (cases rule: hook_cases)
  case early
  from skip_held [OF this] show ?thesis by (simp add: held_def cleanup_def)
next
  case (scan a)
  from skip_held [OF this] show ?thesis by (simp add: held_def cleanup_def)
next
  case (safe a new ne)
  from skip_held [OF this] held_injected [of "[]" new ne a] marker_injected [of new]
  show ?thesis by simp
next
  case (inject flags a new ne)
  from unrestrict_held [OF this marker_injected]
    held_injected [of "[MarkerFd]" new ne a] held_injected [of "[]" new ne a]
  show ?thesis by (simp split: if_splits)
qed

theorem C9_resources_witness:
  "hook_posix_spawn_generic example_world (\<lambda>c. (0, 1234)) example_args =
     (Return 0,
      [Acquire MyAttr, Acquire NewStr, Acquire NewEnvp, Acquire InspectorFd, Acquire CmdsBuf,
       Release CmdsBuf, Release InspectorFd,
       CallOld (example_args\<lparr>
         sc_attrp := Some \<lparr>attr_flags = 0x80, attr_other = 0\<rparr>,
         sc_envp := Some [''A=1'',
           ''DYLD_INSERT_LIBRARIES=/Library/Substitute/Helpers/bundle-loader.dylib'']\<rparr>),
       CallOldPosixSpawn (unrestrict_call 1234 True False), WaitPid 500,
       Release NewEnvp, Release NewStr, Release MyAttr])
   \<and> held (snd (hook_posix_spawn_generic example_world (\<lambda>c. (0, 1234)) example_args)) = []"
proof -
  have h: "hook_posix_spawn_generic example_world (\<lambda>c. (0, 1234)) example_args =
     (Return 0,
      [Acquire MyAttr, Acquire NewStr, Acquire NewEnvp, Acquire InspectorFd, Acquire CmdsBuf,
       Release CmdsBuf, Release InspectorFd,
       CallOld (example_args\<lparr>
         sc_attrp := Some \<lparr>attr_flags = 0x80, attr_other = 0\<rparr>,
         sc_envp := Some [''A=1'',
           ''DYLD_INSERT_LIBRARIES=/Library/Substitute/Helpers/bundle-loader.dylib'']\<rparr>),
       CallOldPosixSpawn (unrestrict_call 1234 True False), WaitPid 500,
       Release NewEnvp, Release NewStr, Release MyAttr])"
    by code_simp
  from C9_resources [OF h] h show ?thesis by simp
qed

subsection \<open>Claim C7\<close>

text \<open>
  C7, as stated: failure to start the helper always abandons injection and falls back
  to the unmodified call. On a create-new-process spawn the helper is started after the
  real call has succeeded, and its result is ignored (line 356): when it fails to
  start, the hook has made the modified call only and returns its result.
\<close>

theorem C7_helper_failure_counterexample:
  "hook_posix_spawn_generic (example_world\<lparr>old_posix_spawn := (\<lambda>c. (1, 0))\<rparr>)
     (\<lambda>c. (0, 1234)) example_args =
     (Return 0,
      [Acquire MyAttr, Acquire NewStr, Acquire NewEnvp, Acquire InspectorFd, Acquire CmdsBuf,
       Release CmdsBuf, Release InspectorFd,
       CallOld (example_args\<lparr>
         sc_attrp := Some \<lparr>attr_flags = 0x80, attr_other = 0\<rparr>,
         sc_envp := Some [''A=1'',
           ''DYLD_INSERT_LIBRARIES=/Library/Substitute/Helpers/bundle-loader.dylib'']\<rparr>),
       CallOldPosixSpawn (unrestrict_call 1234 True False),
       Release NewEnvp, Release NewStr, Release MyAttr])
   \<and> \<not> falls_back (\<lambda>c. (0, 1234)) example_args
         (hook_posix_spawn_generic (example_world\<lparr>old_posix_spawn := (\<lambda>c. (1, 0))\<rparr>)
            (\<lambda>c. (0, 1234)) example_args)"
  by code_simp

text \<open>
  C7, amended: take a hook call (non-null \<^verbatim>\<open>argv\<close> and \<^verbatim>\<open>pidp\<close>) that injects, with
  safe mode off, and whose target the inspector flags. The copy of the attributes gets
  the start-suspended flag forced on, and the helper's resume flag is the negation of
  the caller's original setting. If setting the flags fails, the hook falls back to
  the unmodified call. For a replace-current-process spawn it duplicates descriptor 2
  onto 255 (fallback on failure), marks it close-on-exec (fallback on failure), runs the
  helper with the current process id and exec flag 1, and waits for it, all before the
  real call; if the helper fails to start, it falls back to the unmodified call. For a
  create-new-process spawn the real call comes first; only when it returns 0 is the
  helper run, with the child's pid and exec flag 0, and whether or not the helper
  starts the hook returns the real call's result, with no fallback. The helper is
  always started through \<^verbatim>\<open>old_posix_spawn\<close>, with no file actions and no attributes,
  the arguments (path, pid, resume flag, exec flag) and the environment
  \<^verbatim>\<open>_MSSafeMode=1\<close> alone.
\<close>

theorem C7_unrestrict:
  assumes "sc_argv args = Some av" and "sc_pidp args \<noteq> NullPid"
    and "sc_attrp args \<noteq> None \<longrightarrow> getflags_ok w"
    and "dylib_to_add w (sc_path args) (Some av) = Inject dylib"
    and "clone_attr w (sc_attrp args) = Some my_attr"
    and "rewrite_env (my_envp w (sc_envp args)) dylib = Some (False, new_envp)"
    and "new_malloc_ok w" and "new_envp_malloc_ok w"
    and "fst (looks_restricted w (sc_path args))"
    and "resume = (caller_flags args AND POSIX_SPAWN_START_SUSPENDED = 0)"
    and "call' = args\<lparr>
           sc_attrp := Some (my_attr\<lparr>attr_flags :=
                               caller_flags args OR POSIX_SPAWN_START_SUSPENDED\<rparr>),
           sc_envp := Some new_envp\<rparr>"
    and "before = unrestrict_call (getpid w) resume True"
    and "after = unrestrict_call (snd (old call')) resume False"
  shows "steps (snd (hook_posix_spawn_generic w old args)) =
           (if \<not> setflags_ok w then [CallOld args]
            else if caller_flags args AND POSIX_SPAWN_SETEXEC \<noteq> 0 then
              (if \<not> dup2_ok w then [CallOld args]
               else if \<not> fcntl_ok w then [Acquire MarkerFd, CallOld args]
               else if fst (old_posix_spawn w before) \<noteq> 0
                 then [Acquire MarkerFd, SetCloexec, CallOldPosixSpawn before, CallOld args]
               else [Acquire MarkerFd, SetCloexec, CallOldPosixSpawn before,
                     WaitPid (snd (old_posix_spawn w before)), CallOld call'])
            else if fst (old call') \<noteq> 0 then [CallOld call']
            else if fst (old_posix_spawn w after) \<noteq> 0
              then [CallOld call', CallOldPosixSpawn after]
            else [CallOld call', CallOldPosixSpawn after,
                  WaitPid (snd (old_posix_spawn w after))])
         \<and> fst (hook_posix_spawn_generic w old args) =
           (if \<not> setflags_ok w then ended_as old args
            else if caller_flags args AND POSIX_SPAWN_SETEXEC \<noteq> 0 then
              (if \<not> dup2_ok w \<or> \<not> fcntl_ok w \<or> fst (old_posix_spawn w before) \<noteq> 0
               then ended_as old args
               else ended_as old call')
            else Return (fst (old call')))
         \<and> before =
             \<lparr>sc_pidp = ProgPid, sc_path = ''/Library/Substitute/Helpers/unrestrict'',
              sc_file_actions = None, sc_attrp = None,
              sc_argv = Some [''/Library/Substitute/Helpers/unrestrict'',
                              sprintf_ld (getpid w), if resume then ''1'' else ''0'', ''1''],
              sc_envp = Some [''_MSSafeMode=1'']\<rparr>
         \<and> after =
             \<lparr>sc_pidp = ProgPid, sc_path = ''/Library/Substitute/Helpers/unrestrict'',
              sc_file_actions = None, sc_attrp = None,
              sc_argv = Some [''/Library/Substitute/Helpers/unrestrict'',
                              sprintf_ld (snd (old call')), if resume then ''1'' else ''0'', ''0''],
              sc_envp = Some [''_MSSafeMode=1'']\<rparr>"
proof -
  from hook_inject [OF assms(1,3-8), of old] obtain new where
    h: "hook_posix_spawn_generic w old args =
          unrestrict_and_spawn w old args (caller_flags args) my_attr new new_envp
            (injected_trace new)"
    by (auto simp: caller_flags_def)
  have s: "steps (snd (hook_posix_spawn_generic w old args)) =
           (if \<not> setflags_ok w then [CallOld args]
            else if caller_flags args AND POSIX_SPAWN_SETEXEC \<noteq> 0 then
              (if \<not> dup2_ok w then [CallOld args]
               else if \<not> fcntl_ok w then [Acquire MarkerFd, CallOld args]
               else if fst (old_posix_spawn w before) \<noteq> 0
                 then [Acquire MarkerFd, SetCloexec, CallOldPosixSpawn before, CallOld args]
               else [Acquire MarkerFd, SetCloexec, CallOldPosixSpawn before,
                     WaitPid (snd (old_posix_spawn w before)), CallOld call'])
            else if fst (old call') \<noteq> 0 then [CallOld call']
            else if fst (old_posix_spawn w after) \<noteq> 0
              then [CallOld call', CallOldPosixSpawn after]
            else [CallOld call', CallOldPosixSpawn after,
                  WaitPid (snd (old_posix_spawn w after))])"
    unfolding h unrestrict_steps [OF assms(9,2)] steps_injected
    by (simp only: Let_def assms(10-13) [symmetric] append_Nil)
  have o: "fst (hook_posix_spawn_generic w old args) =
           (if \<not> setflags_ok w then ended_as old args
            else if caller_flags args AND POSIX_SPAWN_SETEXEC \<noteq> 0 then
              (if \<not> dup2_ok w \<or> \<not> fcntl_ok w \<or> fst (old_posix_spawn w before) \<noteq> 0
               then ended_as old args
               else ended_as old call')
            else Return (fst (old call')))"
    unfolding h unrestrict_outcome [OF assms(9,2)]
    by (simp only: Let_def assms(10-13) [symmetric])
  have b: "before =
             \<lparr>sc_pidp = ProgPid, sc_path = ''/Library/Substitute/Helpers/unrestrict'',
              sc_file_actions = None, sc_attrp = None,
              sc_argv = Some [''/Library/Substitute/Helpers/unrestrict'',
                              sprintf_ld (getpid w), if resume then ''1'' else ''0'', ''1''],
              sc_envp = Some [''_MSSafeMode=1'']\<rparr>"
    by (simp add: assms(12) unrestrict_call_def Let_def)
  have a: "after =
             \<lparr>sc_pidp = ProgPid, sc_path = ''/Library/Substitute/Helpers/unrestrict'',
              sc_file_actions = None, sc_attrp = None,
              sc_argv = Some [''/Library/Substitute/Helpers/unrestrict'',
                              sprintf_ld (snd (old call')), if resume then ''1'' else ''0'', ''0''],
              sc_envp = Some [''_MSSafeMode=1'']\<rparr>"
    by (simp add: assms(13) unrestrict_call_def Let_def)
  from s o b a show ?thesis by (intro conjI)
qed

theorem C7_unrestrict_witness:
  "steps (snd (hook_posix_spawn_generic example_world (\<lambda>c. (0, 1234)) example_args)) =
     [CallOld (example_args\<lparr>
        sc_attrp := Some (default_attr\<lparr>attr_flags := 0 OR POSIX_SPAWN_START_SUSPENDED\<rparr>),
        sc_envp := Some [''A=1'',
          ''DYLD_INSERT_LIBRARIES=/Library/Substitute/Helpers/bundle-loader.dylib'']\<rparr>),
      CallOldPosixSpawn (unrestrict_call 1234 True False), WaitPid 500]
   \<and> fst (hook_posix_spawn_generic example_world (\<lambda>c. (0, 1234)) example_args) = Return 0
   \<and> sc_argv (unrestrict_call 1234 True False) =
       Some [''/Library/Substitute/Helpers/unrestrict'', ''1234'', ''1'', ''0'']"
proof -
  let ?env = "[''A=1'', ''DYLD_INSERT_LIBRARIES=/Library/Substitute/Helpers/bundle-loader.dylib'']"
  let ?call = "example_args\<lparr>
        sc_attrp := Some (default_attr\<lparr>attr_flags :=
                            caller_flags example_args OR POSIX_SPAWN_START_SUSPENDED\<rparr>),
        sc_envp := Some ?env\<rparr>"
  let ?old = "\<lambda>c :: spawn_call. (0 :: int, 1234 :: int)"
  have 1: "sc_argv example_args = Some [''restricted'']" by code_simp
  have 2: "sc_pidp example_args \<noteq> NullPid" by code_simp
  have 3: "sc_attrp example_args \<noteq> None \<longrightarrow> getflags_ok example_world" by code_simp
  have 4: "dylib_to_add example_world (sc_path example_args) (Some [''restricted'']) =
           Inject bl_dylib" by code_simp
  have 5: "clone_attr example_world (sc_attrp example_args) = Some default_attr" by code_simp
  have 6: "rewrite_env (my_envp example_world (sc_envp example_args)) bl_dylib =
           Some (False, ?env)" by code_simp
  have 7: "new_malloc_ok example_world" "new_envp_malloc_ok example_world" by code_simp+
  have 8: "fst (looks_restricted example_world (sc_path example_args))" by code_simp
  have f: "caller_flags example_args = 0" by code_simp
  have r: "(caller_flags example_args AND POSIX_SPAWN_START_SUSPENDED = 0) = True"
    by code_simp
  have e: "\<not> (caller_flags example_args AND POSIX_SPAWN_SETEXEC \<noteq> 0)" by code_simp
  have w: "setflags_ok example_world" "getpid example_world = 77"
    "old_posix_spawn example_world = (\<lambda>c. (0, 500))"
    by (simp_all add: example_world_def)
  have p: "sprintf_ld 1234 = ''1234''" by code_simp
  from C7_unrestrict [OF 1 2 3 4 5 6 7 8 refl refl refl refl, of ?old] f r e w p
  show ?thesis by (simp add: unrestrict_call_def)
qed

end
